(* ===== verification/Prelude.thy ===== *)
theory Prelude
  imports Main "HOL-Library.Word" "HOL-Library.Monad_Syntax"
begin

text \<open>
  Shared vocabulary of the development: machine integers, byte buffers, the bounds-checked
  span operations, size arithmetic at the width of \<open>std::size_t\<close>, and little-endian loads and
  stores with their round trips.

  A computation of the program is a value of type \<open>'a option\<close>. \<open>None\<close> stands for both
  things a C++ function can do instead of returning: undefined behaviour (a read outside a
  span) and not terminating. A theorem that a call is \<open>Some\<close> is therefore at once memory
  safety and termination.
\<close>

type_synonym u8 = "8 word"
type_synonym u16 = "16 word"
type_synonym u32 = "32 word"
type_synonym u64 = "64 word"

text \<open>\<open>std::int64_t\<close> and \<open>std::int32_t\<close> are the same bit patterns, read with \<open>sint\<close>.\<close>

type_synonym i32 = "32 word"
type_synonym i64 = "64 word"

type_synonym bytes = "u8 list"

named_theorems span_simps \<open>bounds-checked accesses whose bounds are known\<close>

subsection \<open>Spans\<close>

text \<open>\<open>buf[i]\<close>: outside the span the behaviour is undefined.\<close>

definition byte_at :: "bytes \<Rightarrow> nat \<Rightarrow> u8 option" where
  "byte_at buf i = (if i < length buf then Some (buf ! i) else None)"

text \<open>\<open>buf.first(n)\<close> and \<open>buf.subspan(off)\<close>, undefined past the end of the span.\<close>

definition span_first :: "nat \<Rightarrow> bytes \<Rightarrow> bytes option" where
  "span_first n buf = (if n \<le> length buf then Some (take n buf) else None)"

definition span_subspan :: "nat \<Rightarrow> bytes \<Rightarrow> bytes option" where
  "span_subspan off buf = (if off \<le> length buf then Some (drop off buf) else None)"

text \<open>\<open>buf.subspan(off, n)\<close>, also what \<open>{ptr + off, n}\<close> denotes.\<close>

definition span_slice :: "nat \<Rightarrow> nat \<Rightarrow> bytes \<Rightarrow> bytes option" where
  "span_slice off n buf =
     (if off + n \<le> length buf then Some (take n (drop off buf)) else None)"

lemma byte_at_in [span_simps]: "i < length buf \<Longrightarrow> byte_at buf i = Some (buf ! i)"
  by (simp add: byte_at_def)

lemma byte_at_None_iff: "byte_at buf i = None \<longleftrightarrow> length buf \<le> i"
  by (simp add: byte_at_def)

lemma span_first_in [span_simps]: "n \<le> length buf \<Longrightarrow> span_first n buf = Some (take n buf)"
  by (simp add: span_first_def)

lemma span_subspan_in [span_simps]:
  "off \<le> length buf \<Longrightarrow> span_subspan off buf = Some (drop off buf)"
  by (simp add: span_subspan_def)

lemma span_slice_in [span_simps]:
  "off + n \<le> length buf \<Longrightarrow> span_slice off n buf = Some (take n (drop off buf))"
  by (simp add: span_slice_def)

subsection \<open>Arithmetic on \<open>std::size_t\<close>\<close>

text \<open>
  Sizes and positions inside one object are \<open>nat\<close>: the object exists, so they fit in
  \<open>std::size_t\<close>. Where an operand comes from the input, the operation is written at its width
  (64 bits on the supported targets) and a lemma shows that the wrap-around never happens.
\<close>

definition size_add :: "nat \<Rightarrow> nat \<Rightarrow> nat" where
  "size_add a b = (a + b) mod 2 ^ 64"

definition size_mul :: "nat \<Rightarrow> nat \<Rightarrow> nat" where
  "size_mul a b = (a * b) mod 2 ^ 64"

lemma unat_u8_less [simp]: "unat (b :: u8) < 256"
  using unsigned_less [of b, where ?'a = nat] by simp

lemma unat_u32_less [simp]: "unat (w :: u32) < 4294967296"
  using unsigned_less [of w, where ?'a = nat] by simp

lemma size_mul_u8 [simp]: "size_mul (unat (b :: u8)) 4 = 4 * unat b"
proof -
  have "unat b < 4611686018427387904"
    by (rule less_trans [OF unat_u8_less]) simp
  then show ?thesis
    by (simp add: size_mul_def)
qed

lemma size_add_u32 [simp]: "size_add 8 (unat (w :: u32)) = 8 + unat w"
proof -
  have "unat w < 18446744073709551608"
    by (rule less_trans [OF unat_u32_less]) simp
  then show ?thesis
    by (simp add: size_add_def)
qed

subsection \<open>Little-endian integers\<close>

text \<open>
  \<open>memcpy\<close> of raw bytes into an integer field on a little-endian host: the value is the base
  256 number whose least significant digit comes first.
\<close>

primrec le_nat :: "bytes \<Rightarrow> nat" where
  "le_nat [] = 0"
| "le_nat (b # bs) = unat b + 256 * le_nat bs"

definition le_word :: "bytes \<Rightarrow> 'a::len word" where
  "le_word bs = word_of_nat (le_nat bs)"

primrec le_digits :: "nat \<Rightarrow> nat \<Rightarrow> bytes" where
  "le_digits 0 v = []"
| "le_digits (Suc n) v = word_of_nat (v mod 256) # le_digits n (v div 256)"

definition le_bytes :: "nat \<Rightarrow> 'a::len word \<Rightarrow> bytes" where
  "le_bytes n w = le_digits n (unat w)"

lemma length_le_digits [simp]: "length (le_digits n v) = n"
  by (induction n arbitrary: v) auto

lemma length_le_bytes [simp]: "length (le_bytes n w) = n"
  by (simp add: le_bytes_def)

lemma le_nat_less: "le_nat bs < 256 ^ length bs"
proof (induction bs)
  case Nil
  then show ?case by simp
next
  case (Cons b bs)
  have "1 + le_nat bs \<le> 256 ^ length bs"
    using Cons.IH by simp
  then have "256 + 256 * le_nat bs \<le> 256 * 256 ^ length bs"
    by linarith
  then have "unat b + 256 * le_nat bs < 256 * 256 ^ length bs"
    using unat_u8_less [of b] by linarith
  then show ?case by simp
qed

lemma unat_digit: "unat (word_of_nat (v mod 256) :: u8) = v mod 256"
  by (simp add: unat_of_nat)

lemma le_nat_le_digits: "le_nat (le_digits n v) = v mod 256 ^ n"
proof (induction n arbitrary: v)
  case 0
  then show ?case by simp
next
  case (Suc n)
  have "v mod 256 ^ Suc n = v mod 256 + 256 * (v div 256 mod 256 ^ n)"
    by (simp add: mod_mult2_eq)
  with Suc show ?case
    by (simp add: unat_digit)
qed

lemma le_digits_le_nat: "le_digits (length bs) (le_nat bs) = bs"
proof (induction bs)
  case Nil
  then show ?case by simp
next
  case (Cons b bs)
  have b: "unat b < 256" by simp
  then have "(unat b + 256 * le_nat bs) mod 256 = unat b"
    and "(unat b + 256 * le_nat bs) div 256 = le_nat bs"
    by simp_all
  with Cons.IH show ?case
    by simp
qed

lemma le_word_le_bytes:
  assumes "LENGTH('a) \<le> 8 * n"
  shows "le_word (le_bytes n (w :: 'a::len word)) = w"
proof -
  have "unat w < 2 ^ LENGTH('a)"
    by (rule unsigned_less)
  also have "(2::nat) ^ LENGTH('a) \<le> 2 ^ (8 * n)"
    using assms by (intro power_increasing) auto
  also have "(2::nat) ^ (8 * n) = 256 ^ n"
    by (simp add: power_mult)
  finally have "unat w mod 256 ^ n = unat w"
    by simp
  then show ?thesis
    by (simp add: le_word_def le_bytes_def le_nat_le_digits)
qed

lemma le_bytes_le_word:
  assumes "length bs = n" and "LENGTH('a) = 8 * n"
  shows "le_bytes n (le_word bs :: 'a::len word) = bs"
proof -
  have "le_nat bs < 2 ^ LENGTH('a)"
    using le_nat_less [of bs] assms by (simp add: power_mult)
  then have "unat (le_word bs :: 'a word) = le_nat bs"
    by (simp add: le_word_def unat_of_nat)
  with assms(1) show ?thesis
    by (auto simp: le_bytes_def le_digits_le_nat)
qed

subsection \<open>Lists\<close>

lemma take_drop_join: "m = k + n \<Longrightarrow> take n (drop k xs) @ drop m xs = drop k xs"
  by (metis add.commute append_take_drop_id drop_drop)


end
