(* ===== verification/Event.thy ===== *)
theory Event
  imports Prelude
begin

text \<open>
  \<open>core/include/trading_sim/event.hpp\<close>: the engine's own event. The char-valued scoped enums
  \<open>Action\<close> and \<open>Side\<close> are datatypes with the function that gives each enumerator its wire byte,
  the validators are the switch statements of the source, and \<open>Event\<close> is a record with the
  fields of the struct at their widths.
\<close>

text \<open>A character literal of the source as the byte it denotes.\<close>

abbreviation chr :: "char \<Rightarrow> u8" where
  "chr c \<equiv> of_char c"

subsection \<open>Enumerations\<close>

datatype action = Add | Cancel | Modify | Trade | Fill | Clear

datatype side = Bid | Ask | NoSide

fun action_byte :: "action \<Rightarrow> u8" where
  "action_byte Add = chr CHR ''A''"
| "action_byte Cancel = chr CHR ''C''"
| "action_byte Modify = chr CHR ''M''"
| "action_byte Trade = chr CHR ''T''"
| "action_byte Fill = chr CHR ''F''"
| "action_byte Clear = chr CHR ''R''"

fun side_byte :: "side \<Rightarrow> u8" where
  "side_byte Bid = chr CHR ''B''"
| "side_byte Ask = chr CHR ''A''"
| "side_byte NoSide = chr CHR ''N''"

subsection \<open>Boundary validation\<close>

definition is_valid_action :: "u8 \<Rightarrow> bool" where
  "is_valid_action c \<longleftrightarrow>
     c = chr CHR ''A'' \<or> c = chr CHR ''C'' \<or> c = chr CHR ''M'' \<or>
     c = chr CHR ''T'' \<or> c = chr CHR ''F'' \<or> c = chr CHR ''R''"

definition is_valid_side :: "u8 \<Rightarrow> bool" where
  "is_valid_side c \<longleftrightarrow> c = chr CHR ''B'' \<or> c = chr CHR ''A'' \<or> c = chr CHR ''N''"

text \<open>
  \<open>static_cast<Action>(c)\<close> relabels the byte. The datatype has no value for a byte that is no
  enumerator, so the cast is partial here; the program only casts a byte it has validated.
\<close>

definition cast_action :: "u8 \<Rightarrow> action option" where
  "cast_action c = List.find (\<lambda>a. action_byte a = c) [Add, Cancel, Modify, Trade, Fill, Clear]"

definition cast_side :: "u8 \<Rightarrow> side option" where
  "cast_side c = List.find (\<lambda>s. side_byte s = c) [Bid, Ask, NoSide]"

subsection \<open>The event\<close>

record event =
  ev_ts_event :: u64
  ev_ts_recv :: u64
  ev_order_id :: u64
  ev_price :: i64
  ev_size :: u32
  ev_sequence :: u32
  ev_action :: action
  ev_side :: side
  ev_flags :: u8

subsection \<open>Validation and cast agree\<close>

lemma cast_action_byte [simp]: "cast_action (action_byte a) = Some a"
  by (cases a) (simp_all add: cast_action_def)

lemma cast_side_byte [simp]: "cast_side (side_byte s) = Some s"
  by (cases s) (simp_all add: cast_side_def)

lemma valid_action_byte [simp]: "is_valid_action (action_byte a)"
  by (cases a) (simp_all add: is_valid_action_def)

lemma valid_side_byte [simp]: "is_valid_side (side_byte s)"
  by (cases s) (simp_all add: is_valid_side_def)

lemma valid_actionE:
  assumes "is_valid_action c"
  obtains a where "c = action_byte a"
  using assms unfolding is_valid_action_def by (metis action_byte.simps)

lemma valid_sideE:
  assumes "is_valid_side c"
  obtains s where "c = side_byte s"
  using assms unfolding is_valid_side_def by (metis side_byte.simps)

lemma valid_action_iff: "is_valid_action c \<longleftrightarrow> (\<exists>a. c = action_byte a)"
  by (auto elim: valid_actionE)

lemma valid_side_iff: "is_valid_side c \<longleftrightarrow> (\<exists>s. c = side_byte s)"
  by (auto elim: valid_sideE)

lemma action_byte_inject [simp]: "action_byte a = action_byte b \<longleftrightarrow> a = b"
  by (metis cast_action_byte option.inject)

lemma side_byte_inject [simp]: "side_byte a = side_byte b \<longleftrightarrow> a = b"
  by (metis cast_side_byte option.inject)

lemma cast_action_Some_iff: "cast_action c = Some a \<longleftrightarrow> c = action_byte a"
  by (cases a) (auto simp: cast_action_def split: if_splits)

lemma cast_side_Some_iff: "cast_side c = Some s \<longleftrightarrow> c = side_byte s"
  by (cases s) (auto simp: cast_side_def split: if_splits)

subsection \<open>The enumerations are finite\<close>

text \<open>The library's class of enumerated types gives their sizes and lets simp decide quantifiers.\<close>

instantiation action :: enum
begin

definition enum_action :: "action list" where
  "enum_action = [Add, Cancel, Modify, Trade, Fill, Clear]"

definition enum_all_action :: "(action \<Rightarrow> bool) \<Rightarrow> bool" where
  "enum_all_action P \<longleftrightarrow> P Add \<and> P Cancel \<and> P Modify \<and> P Trade \<and> P Fill \<and> P Clear"

definition enum_ex_action :: "(action \<Rightarrow> bool) \<Rightarrow> bool" where
  "enum_ex_action P \<longleftrightarrow> P Add \<or> P Cancel \<or> P Modify \<or> P Trade \<or> P Fill \<or> P Clear"

instance proof
  have univ: "x \<in> set enum_class.enum" for x :: action
    by (cases x) (simp_all add: enum_action_def)
  then show "(UNIV :: action set) = set enum_class.enum" by auto
  show "distinct (enum_class.enum :: action list)"
    by (simp add: enum_action_def)
  show "enum_class.enum_all P \<longleftrightarrow> Ball UNIV P" for P :: "action \<Rightarrow> bool"
    unfolding enum_all_action_def by (metis UNIV_I action.exhaust)
  show "enum_class.enum_ex P \<longleftrightarrow> Bex UNIV P" for P :: "action \<Rightarrow> bool"
    unfolding enum_ex_action_def by (metis UNIV_I action.exhaust)
qed

end

instantiation side :: enum
begin

definition enum_side :: "side list" where
  "enum_side = [Bid, Ask, NoSide]"

definition enum_all_side :: "(side \<Rightarrow> bool) \<Rightarrow> bool" where
  "enum_all_side P \<longleftrightarrow> P Bid \<and> P Ask \<and> P NoSide"

definition enum_ex_side :: "(side \<Rightarrow> bool) \<Rightarrow> bool" where
  "enum_ex_side P \<longleftrightarrow> P Bid \<or> P Ask \<or> P NoSide"

instance proof
  have univ: "x \<in> set enum_class.enum" for x :: side
    by (cases x) (simp_all add: enum_side_def)
  then show "(UNIV :: side set) = set enum_class.enum" by auto
  show "distinct (enum_class.enum :: side list)"
    by (simp add: enum_side_def)
  show "enum_class.enum_all P \<longleftrightarrow> Ball UNIV P" for P :: "side \<Rightarrow> bool"
    unfolding enum_all_side_def by (metis UNIV_I side.exhaust)
  show "enum_class.enum_ex P \<longleftrightarrow> Bex UNIV P" for P :: "side \<Rightarrow> bool"
    unfolding enum_ex_side_def by (metis UNIV_I side.exhaust)
qed

end

lemma valid_actions_range: "Collect is_valid_action = range action_byte"
  by (auto simp: valid_action_iff)

lemma valid_sides_range: "Collect is_valid_side = range side_byte"
  by (auto simp: valid_side_iff)

lemma card_valid_actions: "card (Collect is_valid_action) = 6"
  unfolding valid_actions_range
  by (subst card_image) (auto simp: inj_def card_UNIV_length_enum enum_action_def)

lemma card_valid_sides: "card (Collect is_valid_side) = 3"
  unfolding valid_sides_range
  by (subst card_image) (auto simp: inj_def card_UNIV_length_enum enum_side_def)

subsection \<open>Properties\<close>

text \<open>The validators accept exactly the bytes of the enumerators, six for actions and three for
  sides out of 256, which are exactly the bytes whose \<open>static_cast\<close> to the enum is an enumerator, and
  the cast recovers it.\<close>

lemma validated_bytes_cast:
  "(is_valid_action c \<longleftrightarrow> (\<exists>a. cast_action c = Some a \<and> action_byte a = c)) \<and>
   (is_valid_side c \<longleftrightarrow> (\<exists>s. cast_side c = Some s \<and> side_byte s = c)) \<and>
   card (Collect is_valid_action) = 6 \<and> card (Collect is_valid_side) = 3"
  using card_valid_actions card_valid_sides by (auto simp: valid_action_iff valid_side_iff)

end
