(* ===== verification/Dbn.thy ===== *)
theory Dbn
  imports Event
begin

text \<open>
  \<open>core/include/trading_sim/dbn.hpp\<close>: the 56-byte wire record, its image in memory, and the
  conversion \<open>to_event\<close>. The record mirrors the struct field by field and in wire order;
  \<open>load_wire\<close> and \<open>store_wire\<close> are the two directions of \<open>memcpy\<close> between the raw bytes and
  the struct, at the offsets the source pins with \<open>offsetof\<close>.
\<close>

record wire_mbo =
  w_length :: u8
  w_rtype :: u8
  w_publisher_id :: u16
  w_instrument_id :: u32
  w_ts_event :: u64
  w_order_id :: u64
  w_price :: i64
  w_size :: u32
  w_flags :: u8
  w_channel_id :: u8
  w_action :: u8
  w_side :: u8
  w_ts_recv :: u64
  w_ts_in_delta :: i32
  w_sequence :: u32

definition sizeof_wire_mbo :: nat where
  "sizeof_wire_mbo = 56"

subsection \<open>Raw bytes to struct and back\<close>

definition load_field :: "nat \<Rightarrow> nat \<Rightarrow> bytes \<Rightarrow> 'a::len word" where
  "load_field off n buf = le_word (take n (drop off buf))"

text \<open>\<open>memcpy(&w, buf, sizeof w)\<close>; reading past the end of \<open>buf\<close> is undefined.\<close>

definition load_wire :: "bytes \<Rightarrow> wire_mbo option" where
  "load_wire buf =
     (if length buf < sizeof_wire_mbo then None
      else Some
        \<lparr> w_length = load_field 0 1 buf,
          w_rtype = load_field 1 1 buf,
          w_publisher_id = load_field 2 2 buf,
          w_instrument_id = load_field 4 4 buf,
          w_ts_event = load_field 8 8 buf,
          w_order_id = load_field 16 8 buf,
          w_price = load_field 24 8 buf,
          w_size = load_field 32 4 buf,
          w_flags = load_field 36 1 buf,
          w_channel_id = load_field 37 1 buf,
          w_action = load_field 38 1 buf,
          w_side = load_field 39 1 buf,
          w_ts_recv = load_field 40 8 buf,
          w_ts_in_delta = load_field 48 4 buf,
          w_sequence = load_field 52 4 buf \<rparr>)"

definition store_wire :: "wire_mbo \<Rightarrow> bytes" where
  "store_wire w =
     le_bytes 1 (w_length w) @ le_bytes 1 (w_rtype w) @ le_bytes 2 (w_publisher_id w) @
     le_bytes 4 (w_instrument_id w) @ le_bytes 8 (w_ts_event w) @ le_bytes 8 (w_order_id w) @
     le_bytes 8 (w_price w) @ le_bytes 4 (w_size w) @ le_bytes 1 (w_flags w) @
     le_bytes 1 (w_channel_id w) @ le_bytes 1 (w_action w) @ le_bytes 1 (w_side w) @
     le_bytes 8 (w_ts_recv w) @ le_bytes 4 (w_ts_in_delta w) @ le_bytes 4 (w_sequence w)"

lemma length_store_wire [simp]: "length (store_wire w) = 56"
  by (simp add: store_wire_def)

lemma load_store_wire: "load_wire (store_wire w @ rest) = Some w"
  by (simp add: load_wire_def sizeof_wire_mbo_def load_field_def)
     (simp add: store_wire_def le_word_le_bytes)

lemma le_bytes_load_field:
  assumes "LENGTH('a) = 8 * n" and "off + n \<le> length buf"
  shows "le_bytes n (load_field off n buf :: 'a::len word) = take n (drop off buf)"
  using assms by (simp add: load_field_def le_bytes_le_word)

lemma store_load_wire:
  assumes len: "length buf = 56" and load: "load_wire buf = Some w"
  shows "store_wire w = buf"
proof -
  have "store_wire w = take 56 buf"
    using load len
    by (auto simp: load_wire_def sizeof_wire_mbo_def store_wire_def le_bytes_load_field
          take_drop_join)
  with len show ?thesis by simp
qed

lemma load_wire_Some_iff: "(\<exists>w. load_wire buf = Some w) \<longleftrightarrow> 56 \<le> length buf"
  by (auto simp: load_wire_def sizeof_wire_mbo_def)

subsection \<open>Validate and convert\<close>

datatype parse_error = BadAction | BadSide

text \<open>
  The outer \<open>option\<close> is the computation: \<open>None\<close> would be a cast of a byte that is no
  enumerator. The inner sum is the \<open>std::expected\<close> the function returns.
\<close>

definition to_event :: "wire_mbo \<Rightarrow> (parse_error + event) option" where
  "to_event w =
     (if \<not> is_valid_action (w_action w) then Some (Inl BadAction)
      else if \<not> is_valid_side (w_side w) then Some (Inl BadSide)
      else do {
        a \<leftarrow> cast_action (w_action w);
        s \<leftarrow> cast_side (w_side w);
        Some (Inr
          \<lparr> ev_ts_event = w_ts_event w,
            ev_ts_recv = w_ts_recv w,
            ev_order_id = w_order_id w,
            ev_price = w_price w,
            ev_size = w_size w,
            ev_sequence = w_sequence w,
            ev_action = a,
            ev_side = s,
            ev_flags = w_flags w \<rparr>)
      })"

lemma to_event_cases:
  obtains (bad_action) "\<not> is_valid_action (w_action w)" "to_event w = Some (Inl BadAction)"
  | (bad_side) "is_valid_action (w_action w)" "\<not> is_valid_side (w_side w)"
      "to_event w = Some (Inl BadSide)"
  | (event) a s where "w_action w = action_byte a" "w_side w = side_byte s"
      "to_event w = Some (Inr
          \<lparr> ev_ts_event = w_ts_event w, ev_ts_recv = w_ts_recv w, ev_order_id = w_order_id w,
            ev_price = w_price w, ev_size = w_size w, ev_sequence = w_sequence w,
            ev_action = a, ev_side = s, ev_flags = w_flags w \<rparr>)"
proof (cases "is_valid_action (w_action w) \<and> is_valid_side (w_side w)")
  case True
  then obtain a s where "w_action w = action_byte a" "w_side w = side_byte s"
    by (auto elim!: valid_actionE valid_sideE)
  then show ?thesis by (intro event [of a s]) (simp_all add: to_event_def)
next
  case False
  then show ?thesis using bad_action bad_side by (auto simp: to_event_def)
qed

lemma to_event_total: "\<exists>r. to_event w = Some r"
  by (cases w rule: to_event_cases) auto

text \<open>The record a feed writes for an event: the dropped fields take any value.\<close>

definition wire_of_event :: "u16 \<Rightarrow> u32 \<Rightarrow> u8 \<Rightarrow> i32 \<Rightarrow> event \<Rightarrow> wire_mbo" where
  "wire_of_event publisher instrument channel delta e =
     \<lparr> w_length = 14, w_rtype = 160,
       w_publisher_id = publisher, w_instrument_id = instrument,
       w_ts_event = ev_ts_event e, w_order_id = ev_order_id e, w_price = ev_price e,
       w_size = ev_size e, w_flags = ev_flags e, w_channel_id = channel,
       w_action = action_byte (ev_action e), w_side = side_byte (ev_side e),
       w_ts_recv = ev_ts_recv e, w_ts_in_delta = delta, w_sequence = ev_sequence e \<rparr>"

lemma to_event_wire_of_event [simp]: "to_event (wire_of_event p i c d e) = Some (Inr e)"
  by (simp add: to_event_def wire_of_event_def)

subsection \<open>Properties\<close>

text \<open>(C38) The struct image: every record written to a buffer is read back field by field, from 56 bytes
  and whatever follows them; and every 56-byte block is the image of the record it is read as, so no
  byte of the block is dropped or read twice.\<close>

theorem wire_roundtrips:
  "load_wire (store_wire w @ rest) = Some w \<and>
   (length buf = sizeof_wire_mbo \<longrightarrow> map_option store_wire (load_wire buf) = Some buf)"
proof (intro conjI impI)
  show "load_wire (store_wire w @ rest) = Some w"
    by (rule load_store_wire)
  assume buf: "length buf = sizeof_wire_mbo"
  then obtain v where v: "load_wire buf = Some v"
    using load_wire_Some_iff [of buf] by (auto simp: sizeof_wire_mbo_def)
  moreover have "store_wire v = buf"
    using buf by (intro store_load_wire v) (simp add: sizeof_wire_mbo_def)
  ultimately show "map_option store_wire (load_wire buf) = Some buf" by simp
qed

theorem wire_roundtrips_witness:
  "map_option store_wire (load_wire (replicate 56 7)) = Some (replicate 56 (7 :: u8))"
  by (rule wire_roundtrips [THEN conjunct2, THEN mp]) (simp add: sizeof_wire_mbo_def)

text \<open>(C19) The conversion is total and its outcome is decided by the action byte first and the side
  byte second; it never casts a byte that is no enumerator.\<close>

theorem to_event_outcome:
  "to_event w \<noteq> None \<and>
   (to_event w = Some (Inl BadAction) \<longleftrightarrow> \<not> is_valid_action (w_action w)) \<and>
   (to_event w = Some (Inl BadSide) \<longleftrightarrow>
      is_valid_action (w_action w) \<and> \<not> is_valid_side (w_side w)) \<and>
   ((\<exists>e. to_event w = Some (Inr e)) \<longleftrightarrow>
      is_valid_action (w_action w) \<and> is_valid_side (w_side w))"
  by (cases w rule: to_event_cases) auto

text \<open>The fields that the struct's comments call validated but not stored are not looked at:
  records that differ in publisher, instrument, channel and send delta convert alike, and so do
  records with any length and rtype bytes.\<close>

lemma to_event_ignores_envelope:
  "to_event (w\<lparr>w_length := l, w_rtype := t, w_publisher_id := p, w_instrument_id := i,
     w_channel_id := c, w_ts_in_delta := d\<rparr>) = to_event w"
  by (simp add: to_event_def)

text \<open>(C20) A converted event carries the consumed wire fields unchanged: nothing is rescaled,
  truncated or swapped, and action and side relabel the wire bytes. It depends on no other field: the
  record converts to the same event with any length, rtype, publisher, instrument, channel and send
  delta.\<close>

theorem to_event_preserves_fields:
  assumes "to_event w = Some (Inr e)"
  shows "ev_ts_event e = w_ts_event w \<and> ev_ts_recv e = w_ts_recv w \<and>
    ev_order_id e = w_order_id w \<and> ev_price e = w_price w \<and> ev_size e = w_size w \<and>
    ev_sequence e = w_sequence w \<and> action_byte (ev_action e) = w_action w \<and>
    side_byte (ev_side e) = w_side w \<and> ev_flags e = w_flags w \<and>
    (\<forall>l t p i c d. to_event (w\<lparr>w_length := l, w_rtype := t, w_publisher_id := p,
       w_instrument_id := i, w_channel_id := c, w_ts_in_delta := d\<rparr>) = Some (Inr e))"
  using assms unfolding to_event_ignores_envelope by (cases w rule: to_event_cases) auto

definition sample_event :: event where
  "sample_event =
     \<lparr> ev_ts_event = 1748955600000000000, ev_ts_recv = 1748955600000000123,
       ev_order_id = 123456789, ev_price = 500000000000, ev_size = 100, ev_sequence = 42,
       ev_action = Add, ev_side = Bid, ev_flags = 128 \<rparr>"

theorem to_event_preserves_fields_witness:
  "ev_price sample_event = w_price (wire_of_event 2 7 1 50 sample_event) \<and>
   action_byte (ev_action sample_event) = w_action (wire_of_event 2 7 1 50 sample_event)"
  using to_event_preserves_fields [OF to_event_wire_of_event [of 2 7 1 50 sample_event]] by simp

end
