(* ===== verification/Layout.thy ===== *)
theory Layout
  imports Dbn "HOL-Library.Multiset"
begin

text \<open>
  The layout of the structs, which the source pins with \<open>static_assert\<close>: the members of \<open>WireMbo\<close>
  and \<open>Event\<close> in declaration order, and the rule by which a C++ compiler for the supported targets
  places them (every member at the next multiple of its alignment, the struct padded to the
  largest one). The assertions become theorems, and \<open>load_wire\<close> is tied to the computed offsets.
\<close>

subsection \<open>Members and their placement\<close>

text \<open>The member types; on the supported targets each is aligned to its size.\<close>

datatype member_type = UInt8 | UInt16 | UInt32 | UInt64 | Int32 | Int64 | CharT | ActionT | SideT

fun member_size :: "member_type \<Rightarrow> nat" where
  "member_size UInt8 = 1"
| "member_size UInt16 = 2"
| "member_size UInt32 = 4"
| "member_size UInt64 = 8"
| "member_size Int32 = 4"
| "member_size Int64 = 8"
| "member_size CharT = 1"
| "member_size ActionT = 1"
| "member_size SideT = 1"

definition align_up :: "nat \<Rightarrow> nat \<Rightarrow> nat" where
  "align_up a n = (n + a - 1) div a * a"

text \<open>The offsets from a position on, and the position behind the last member.\<close>

fun place :: "nat \<Rightarrow> member_type list \<Rightarrow> nat list" where
  "place pos [] = []"
| "place pos (t # ts) =
     (let off = align_up (member_size t) pos in off # place (off + member_size t) ts)"

fun place_end :: "nat \<Rightarrow> member_type list \<Rightarrow> nat" where
  "place_end pos [] = pos"
| "place_end pos (t # ts) = place_end (align_up (member_size t) pos + member_size t) ts"

definition struct_align :: "member_type list \<Rightarrow> nat" where
  "struct_align ts = foldr max (map member_size ts) 1"

definition struct_sizeof :: "member_type list \<Rightarrow> nat" where
  "struct_sizeof ts = align_up (struct_align ts) (place_end 0 ts)"

subsection \<open>The two structs\<close>

definition wire_mbo_members :: "member_type list" where
  "wire_mbo_members =
     [UInt8, UInt8, UInt16, UInt32, UInt64, UInt64, Int64, UInt32, UInt8, UInt8, CharT, CharT,
      UInt64, Int32, UInt32]"

definition event_members :: "member_type list" where
  "event_members = [UInt64, UInt64, UInt64, Int64, UInt32, UInt32, ActionT, SideT, UInt8]"

text \<open>The bytes of each member of a wire record, in declaration order.\<close>

definition wire_member_bytes :: "wire_mbo \<Rightarrow> bytes list" where
  "wire_member_bytes w =
     [le_bytes 1 (w_length w), le_bytes 1 (w_rtype w), le_bytes 2 (w_publisher_id w),
      le_bytes 4 (w_instrument_id w), le_bytes 8 (w_ts_event w), le_bytes 8 (w_order_id w),
      le_bytes 8 (w_price w), le_bytes 4 (w_size w), le_bytes 1 (w_flags w),
      le_bytes 1 (w_channel_id w), le_bytes 1 (w_action w), le_bytes 1 (w_side w),
      le_bytes 8 (w_ts_recv w), le_bytes 4 (w_ts_in_delta w), le_bytes 4 (w_sequence w)]"

subsection \<open>Sizes\<close>

lemma member_size_pos [simp]: "0 < member_size t"
  by (cases t) simp_all

lemma align_up_ge: "0 < a \<Longrightarrow> n \<le> align_up a n"
proof -
  assume a: "0 < a"
  have "n + a - 1 = (n + a - 1) div a * a + (n + a - 1) mod a" by simp
  moreover have "(n + a - 1) mod a < a" using a by simp
  ultimately show ?thesis using a unfolding align_up_def by linarith
qed

lemma align_up_mono: "m \<le> n \<Longrightarrow> align_up a m \<le> align_up a n"
  unfolding align_up_def by (intro mult_le_mono1 div_le_mono) simp

lemma place_end_ge: "pos + sum_list (map member_size ts) \<le> place_end pos ts"
proof (induction ts arbitrary: pos)
  case (Cons t ts)
  have "pos \<le> align_up (member_size t) pos"
    by (rule align_up_ge) simp
  with Cons.IH [of "align_up (member_size t) pos + member_size t"] show ?case
    by simp
qed simp

lemma struct_align_mset: "mset ts = mset us \<Longrightarrow> struct_align ts = struct_align us"
proof -
  assume eq: "mset ts = mset us"
  have "foldr max (map f vs) 1 = Max (insert 1 (f ` set vs))" for f :: "member_type \<Rightarrow> nat" and vs
  proof (induction vs)
    case (Cons v vs)
    have "Max (insert 1 (f ` set (v # vs))) = Max (insert (f v) (insert 1 (f ` set vs)))"
      by (simp only: list.set image_insert insert_commute)
    also have "\<dots> = max (f v) (Max (insert 1 (f ` set vs)))"
      by (rule Max_insert) simp_all
    finally show ?case using Cons.IH by simp
  qed simp
  with eq show ?thesis
    unfolding struct_align_def by (metis mset_eq_setD)
qed

text \<open>No order of the members makes a struct smaller than its bytes rounded up to the alignment.\<close>

lemma struct_sizeof_lower:
  assumes "mset ts = mset us"
  shows "align_up (struct_align us) (sum_list (map member_size us)) \<le> struct_sizeof ts"
proof -
  have "sum_list (map member_size us) = sum_list (map member_size ts)"
    using assms by (metis mset_map sum_mset_sum_list)
  also have "\<dots> \<le> place_end 0 ts"
    using place_end_ge [of 0 ts] by simp
  finally show ?thesis
    unfolding struct_sizeof_def struct_align_mset [OF assms] by (rule align_up_mono)
qed

lemmas layout_eval = wire_mbo_members_def event_members_def struct_sizeof_def struct_align_def
  align_up_def

text \<open>Reading a record takes each member from its place.\<close>

lemma load_wire_members:
  assumes "load_wire buf = Some w"
  shows "wire_member_bytes w =
    [take 1 (drop 0 buf), take 1 (drop 1 buf), take 2 (drop 2 buf), take 4 (drop 4 buf),
     take 8 (drop 8 buf), take 8 (drop 16 buf), take 8 (drop 24 buf), take 4 (drop 32 buf),
     take 1 (drop 36 buf), take 1 (drop 37 buf), take 1 (drop 38 buf), take 1 (drop 39 buf),
     take 8 (drop 40 buf), take 4 (drop 48 buf), take 4 (drop 52 buf)]"
proof -
  have len: "56 \<le> length buf"
    using assms load_wire_Some_iff [of buf] by blast
  have field: "le_bytes n (load_field off n buf :: 'a::len word) = take n (drop off buf)"
    if "LENGTH('a) = 8 * n" "off + n \<le> 56" for n off
    using that len by (intro le_bytes_load_field) simp_all
  show ?thesis
    using assms len unfolding load_wire_def wire_member_bytes_def
    by (clarsimp simp: field split: if_splits)
qed

subsection \<open>The image of an event in memory\<close>

text \<open>
  \<open>memcpy\<close> of an \<open>Event\<close> to a raw buffer and back. The bytes \<open>pad\<close> behind the last member have no
  particular value. An \<open>action\<close> or \<open>side\<close> that is no enumerator has no value in the model, so that a
  load of one is \<open>None\<close>, as one past the end of the buffer is.
\<close>

definition event_member_bytes :: "event \<Rightarrow> bytes list" where
  "event_member_bytes e =
     [le_bytes 8 (ev_ts_event e), le_bytes 8 (ev_ts_recv e), le_bytes 8 (ev_order_id e),
      le_bytes 8 (ev_price e), le_bytes 4 (ev_size e), le_bytes 4 (ev_sequence e),
      le_bytes 1 (action_byte (ev_action e)), le_bytes 1 (side_byte (ev_side e)), le_bytes 1 (ev_flags e)]"

definition store_event :: "bytes \<Rightarrow> event \<Rightarrow> bytes" where
  "store_event pad e = concat (event_member_bytes e) @ pad"

definition load_event :: "bytes \<Rightarrow> event option" where
  "load_event buf =
     (if length buf < struct_sizeof event_members then None
      else do {
        a \<leftarrow> cast_action (load_field 40 1 buf);
        s \<leftarrow> cast_side (load_field 41 1 buf);
        Some \<lparr> ev_ts_event = load_field 0 8 buf, ev_ts_recv = load_field 8 8 buf,
               ev_order_id = load_field 16 8 buf, ev_price = load_field 24 8 buf,
               ev_size = load_field 32 4 buf, ev_sequence = load_field 36 4 buf,
               ev_action = a, ev_side = s, ev_flags = load_field 42 1 buf \<rparr>
      })"

lemma struct_sizeof_event: "struct_sizeof event_members = 48"
  by (simp add: layout_eval)

text \<open>Every member lies where its declaration puts it.\<close>

lemma store_event_members:
  "map2 (\<lambda>off t. take (member_size t) (drop off (store_event pad e)))
     (place 0 event_members) event_members = event_member_bytes e"
  by (simp add: event_members_def align_up_def store_event_def event_member_bytes_def Let_def)

text \<open>The event that comes back is the event that went in, whatever the padding.\<close>

lemma load_store_event: "length pad = 5 \<Longrightarrow> load_event (store_event pad e @ rest) = Some e"
  by (simp add: load_event_def struct_sizeof_event load_field_def)
     (simp add: store_event_def event_member_bytes_def le_word_le_bytes)

subsection \<open>Properties\<close>

text \<open>(C30) The wire struct has the layout its assertions pin: the 15 members lie at the stated
  offsets without a byte of padding between or behind them, in 56 bytes aligned to 8; and reading a
  record takes each member from exactly the bytes at the offset its declaration gives it.\<close>

theorem wire_layout_pinned:
  "place 0 wire_mbo_members = [0, 1, 2, 4, 8, 16, 24, 32, 36, 37, 38, 39, 40, 48, 52] \<and>
   struct_sizeof wire_mbo_members = sizeof_wire_mbo \<and> struct_align wire_mbo_members = 8 \<and>
   sum_list (map member_size wire_mbo_members) = sizeof_wire_mbo \<and>
   (case load_wire buf of
      None \<Rightarrow> length buf < struct_sizeof wire_mbo_members
    | Some w \<Rightarrow> wire_member_bytes w =
        map2 (\<lambda>off t. take (member_size t) (drop off buf))
          (place 0 wire_mbo_members) wire_mbo_members)"
proof -
  have offs: "place 0 wire_mbo_members = [0, 1, 2, 4, 8, 16, 24, 32, 36, 37, 38, 39, 40, 48, 52]"
    by code_simp
  have size: "struct_sizeof wire_mbo_members = sizeof_wire_mbo" "struct_align wire_mbo_members = 8"
    "sum_list (map member_size wire_mbo_members) = sizeof_wire_mbo"
    by (simp_all add: layout_eval sizeof_wire_mbo_def)
  have members: "case load_wire buf of
      None \<Rightarrow> length buf < struct_sizeof wire_mbo_members
    | Some w \<Rightarrow> wire_member_bytes w =
        map2 (\<lambda>off t. take (member_size t) (drop off buf))
          (place 0 wire_mbo_members) wire_mbo_members"
  proof (cases "length buf < sizeof_wire_mbo")
    case True
    then show ?thesis by (simp add: load_wire_def size)
  next
    case False
    then obtain w where "load_wire buf = Some w" by (simp add: load_wire_def)
    with load_wire_members [OF this] show ?thesis
      by (simp add: offs) (simp add: wire_mbo_members_def)
  qed
  show ?thesis by (intro conjI offs size members)
qed

text \<open>(C40) The event has the layout the header claims: 48 bytes aligned to 8 with 43 of them used,
  largest members first and so no padding between members; and no other order of its members gives
  a smaller struct.\<close>

theorem event_layout_optimal:
  assumes "mset ts = mset event_members"
  shows "struct_sizeof event_members = 48 \<and> struct_align event_members = 8 \<and>
    place_end 0 event_members = 43 \<and> sum_list (map member_size event_members) = 43 \<and>
    sorted_wrt (\<ge>) (map member_size event_members) \<and> struct_sizeof event_members \<le> struct_sizeof ts"
proof -
  have "align_up (struct_align event_members) (sum_list (map member_size event_members)) = 48"
    and size: "struct_sizeof event_members = 48"
    by (simp_all add: layout_eval)
  with struct_sizeof_lower [OF assms] have "struct_sizeof event_members \<le> struct_sizeof ts"
    by simp
  with size show ?thesis
    by (simp add: layout_eval)
qed

theorem event_layout_optimal_witness:
  "struct_sizeof event_members \<le>
    struct_sizeof [UInt8, UInt64, ActionT, UInt64, SideT, UInt64, UInt32, Int64, UInt32]"
  using event_layout_optimal
    [of "[UInt8, UInt64, ActionT, UInt64, SideT, UInt64, UInt32, Int64, UInt32]"]
  by (simp add: event_members_def add_mset_commute)

end
