(* ===== verification/Framer.thy ===== *)
theory Framer
  imports Prelude
begin

text \<open>
  The per-record framing decision \<open>frame_one\<close> of \<open>core/include/trading_sim/dbn_reader.hpp\<close>,
  and what framing a whole byte stream means: \<open>split_records\<close> cuts the stream into its whole
  records and the tail at which framing stops. \<open>split_records_unique\<close> says that this is the
  only way to cut the stream.
\<close>

subsection \<open>The code\<close>

datatype frame_status = FrameOk | FrameNeedMore | FrameCorrupt

record frame_result =
  fr_status :: frame_status
  fr_rtype :: u8
  fr_record_size :: nat

definition frame_one :: "bytes \<Rightarrow> frame_result option" where
  "frame_one buf =
     (if length buf < 2 then
        Some \<lparr> fr_status = FrameNeedMore, fr_rtype = 0, fr_record_size = 0 \<rparr>
      else do {
        len \<leftarrow> byte_at buf 0;
        let record_size = size_mul (unat len) 4;
        if record_size = 0 then
          Some \<lparr> fr_status = FrameCorrupt, fr_rtype = 0, fr_record_size = 0 \<rparr>
        else if length buf < record_size then
          Some \<lparr> fr_status = FrameNeedMore, fr_rtype = 0, fr_record_size = 0 \<rparr>
        else do {
          rtype \<leftarrow> byte_at buf 1;
          Some \<lparr> fr_status = FrameOk, fr_rtype = rtype, fr_record_size = record_size \<rparr>
        }
      })"

subsection \<open>What the front of a buffer holds\<close>

text \<open>
  A record is a block of bytes that states its own size; framing is stuck at a tail that holds
  no whole record, and lost when that tail has a length byte of 0.
\<close>

definition whole_record :: "bytes \<Rightarrow> bool" where
  "whole_record r \<longleftrightarrow> 0 < length r \<and> length r = 4 * unat (hd r)"

definition corrupt_tail :: "bytes \<Rightarrow> bool" where
  "corrupt_tail bs \<longleftrightarrow> 2 \<le> length bs \<and> hd bs = 0"

definition short_tail :: "bytes \<Rightarrow> bool" where
  "short_tail bs \<longleftrightarrow> length bs < 2 \<or> length bs < 4 * unat (hd bs)"

lemma whole_record_bounds:
  assumes "whole_record r"
  shows "4 \<le> length r" and "length r \<le> 1020"
proof -
  have "unat (hd r) < 256"
    by (rule unat_u8_less)
  moreover have "0 < length r" "length r = 4 * unat (hd r)"
    using assms unfolding whole_record_def by blast+
  ultimately have "4 \<le> length r \<and> length r \<le> 1020"
    by presburger
  then show "4 \<le> length r" and "length r \<le> 1020"
    by blast+
qed

lemma short_tail_less: "short_tail bs \<Longrightarrow> length bs < 1020"
  using unat_u8_less [of "hd bs"] unfolding short_tail_def by linarith

lemma not_corrupt_and_short: "corrupt_tail bs \<Longrightarrow> \<not> short_tail bs"
  by (auto simp: corrupt_tail_def short_tail_def)

lemma corrupt_tail_append: "corrupt_tail bs \<Longrightarrow> corrupt_tail (bs @ rest)"
  by (cases bs) (auto simp: corrupt_tail_def)

text \<open>The three outcomes of \<open>frame_one\<close>, one per kind of front.\<close>

lemma frame_one_short: "short_tail bs \<Longrightarrow> frame_one bs =
    Some \<lparr> fr_status = FrameNeedMore, fr_rtype = 0, fr_record_size = 0 \<rparr>"
  by (cases bs) (auto simp: frame_one_def short_tail_def byte_at_def Let_def)

lemma frame_one_corrupt: "corrupt_tail bs \<Longrightarrow> frame_one bs =
    Some \<lparr> fr_status = FrameCorrupt, fr_rtype = 0, fr_record_size = 0 \<rparr>"
  by (cases bs) (auto simp: frame_one_def corrupt_tail_def byte_at_def Let_def)

lemma frame_one_whole:
  assumes "whole_record r"
  shows "frame_one (r @ rest) =
    Some \<lparr> fr_status = FrameOk, fr_rtype = r ! 1, fr_record_size = length r \<rparr>"
proof -
  have "4 \<le> length r" by (rule whole_record_bounds [OF assms])
  moreover from this obtain l r' where "r = l # r'" by (cases r) auto
  ultimately show ?thesis
    using assms by (auto simp: frame_one_def whole_record_def byte_at_def Let_def nth_append)
qed

lemma front_cases:
  obtains (short) "short_tail bs" | (corrupt) "corrupt_tail bs"
  | (whole) r rest where "bs = r @ rest" "whole_record r"
proof (cases "short_tail bs \<or> corrupt_tail bs")
  case True
  then show ?thesis using short corrupt by blast
next
  case False
  let ?n = "4 * unat (hd bs)"
  from False have "2 \<le> length bs" "?n \<le> length bs" "hd bs \<noteq> 0"
    by (auto simp: short_tail_def corrupt_tail_def)
  moreover from this have "0 < unat (hd bs)"
    by (simp add: unat_gt_0)
  ultimately have "whole_record (take ?n bs)"
    by (cases bs) (auto simp: whole_record_def take_Cons')
  then show ?thesis
    using whole [of "take ?n bs" "drop ?n bs"] by simp
qed

lemma drop_record_less:
  assumes "\<not> short_tail bs" and "\<not> corrupt_tail bs"
  shows "length (drop (4 * unat (hd bs)) bs) < length bs"
proof -
  have "2 \<le> length bs" "0 < unat (hd bs)"
    using assms by (auto simp: short_tail_def corrupt_tail_def unat_gt_0)
  then show ?thesis
    unfolding length_drop by linarith
qed

lemma frame_one_defined: "\<exists>r. frame_one bs = Some r"
  by (cases bs rule: front_cases) (auto simp: frame_one_short frame_one_corrupt frame_one_whole)

subsection \<open>Framing a whole stream\<close>

function split_records :: "bytes \<Rightarrow> bytes list \<times> bytes" where
  "split_records bs =
     (if short_tail bs \<or> corrupt_tail bs then ([], bs)
      else let n = 4 * unat (hd bs); (rs, tail) = split_records (drop n bs)
           in (take n bs # rs, tail))"
  by pat_completeness auto
termination
  by (relation "measure length") (auto dest: drop_record_less)

declare split_records.simps [simp del]

lemma split_records_stop [simp]:
  "short_tail bs \<Longrightarrow> split_records bs = ([], bs)"
  "corrupt_tail bs \<Longrightarrow> split_records bs = ([], bs)"
  by (simp_all add: split_records.simps)

lemma split_records_whole:
  assumes "whole_record r"
  shows "split_records (r @ rest) = (r # fst (split_records rest), snd (split_records rest))"
proof -
  have "hd (r @ rest) = hd r" "r \<noteq> []" "length r = 4 * unat (hd r)"
    using assms by (auto simp: whole_record_def)
  moreover have "\<not> short_tail (r @ rest)" "\<not> corrupt_tail (r @ rest)"
    using assms whole_record_bounds [OF assms] by (auto simp: short_tail_def corrupt_tail_def whole_record_def)
  ultimately show ?thesis
    by (subst split_records.simps) (simp add: Let_def split_beta)
qed

lemma stream_induct [case_names short corrupt whole]:
  assumes "\<And>bs. short_tail bs \<Longrightarrow> P bs"
    and "\<And>bs. corrupt_tail bs \<Longrightarrow> P bs"
    and "\<And>r rest. whole_record r \<Longrightarrow> P rest \<Longrightarrow> P (r @ rest)"
  shows "P bs"
proof (induction bs rule: length_induct)
  case (1 bs)
  show ?case
  proof (cases bs rule: front_cases)
    case (whole r rest)
    moreover from this have "length rest < length bs"
      using whole_record_bounds(1) [of r] by (cases r) auto
    ultimately show ?thesis using 1 assms(3) by blast
  qed (use assms in auto)
qed

lemma split_records_sound:
  "concat (fst (split_records bs)) @ snd (split_records bs) = bs \<and>
   (\<forall>r \<in> set (fst (split_records bs)). whole_record r) \<and>
   (short_tail (snd (split_records bs)) \<or> corrupt_tail (snd (split_records bs)))"
  by (induction bs rule: stream_induct) (auto simp: split_records_whole)

lemma split_records_unique:
  assumes "\<forall>r \<in> set rs. whole_record r" and "short_tail tail \<or> corrupt_tail tail"
  shows "split_records (concat rs @ tail) = (rs, tail)"
  using assms by (induction rs) (auto simp: split_records_whole)

lemma split_records_length:
  "4 * length (fst (split_records bs)) + length (snd (split_records bs)) \<le> length bs"
proof (induction bs rule: stream_induct)
  case (whole r rest)
  then show ?case
    using whole_record_bounds [of r] by (simp add: split_records_whole)
qed simp_all

subsection \<open>Properties\<close>

text \<open>A decision other than \<open>NeedMore\<close> is final: more bytes behind the buffer never change
  it. This is what makes framing independent of how the stream was cut into chunks.\<close>

lemma frame_one_stable:
  assumes "frame_one buf = Some r" and "fr_status r \<noteq> FrameNeedMore"
  shows "frame_one (buf @ extra) = Some r"
proof (cases buf rule: front_cases)
  case short
  with assms show ?thesis by (auto simp: frame_one_short)
next
  case corrupt
  with assms show ?thesis
    using corrupt_tail_append [OF corrupt, of extra] by (simp add: frame_one_corrupt)
next
  case (whole rcd rest)
  with assms show ?thesis by (auto simp: frame_one_whole)
qed

text \<open>(C12) On every buffer the framer returns, without reading outside the buffer, and \<open>Ok\<close> is
  exactly the case where the buffer starts with a whole record, \<open>Corrupt\<close> the case of a zero
  length byte followed by another byte; the size and type it returns are the record's.\<close>

theorem frame_one_decides:
  "\<exists>r. frame_one buf = Some r \<and>
    (fr_status r = FrameOk \<longleftrightarrow> (\<exists>rcd rest. buf = rcd @ rest \<and> whole_record rcd \<and>
       fr_rtype r = rcd ! 1 \<and> fr_record_size r = length rcd)) \<and>
    (fr_status r = FrameCorrupt \<longleftrightarrow> (\<exists>b rest. buf = 0 # b # rest))"
proof (cases buf rule: front_cases)
  case short
  have "\<not> (\<exists>rcd rest. buf = rcd @ rest \<and> whole_record rcd)"
    using short frame_one_short [OF short] frame_one_whole by (metis frame_result.select_convs(1)
        frame_status.distinct(1) option.inject)
  then show ?thesis using short by (auto simp: frame_one_short short_tail_def)
next
  case corrupt
  have "\<not> (\<exists>rcd rest. buf = rcd @ rest \<and> whole_record rcd)"
    using frame_one_corrupt [OF corrupt] frame_one_whole by (metis frame_result.select_convs(1)
        frame_status.distinct(3) option.inject)
  moreover have "\<exists>b rest. buf = 0 # b # rest"
    using corrupt by (cases buf; cases "tl buf") (auto simp: corrupt_tail_def)
  ultimately show ?thesis using corrupt by (auto simp: frame_one_corrupt)
next
  case (whole rcd rest)
  have "\<not> corrupt_tail buf"
    using whole frame_one_whole [OF whole(2), of rest] frame_one_corrupt [of buf] by auto
  then have "\<not> (\<exists>b rest. buf = 0 # b # rest)"
    by (auto simp: corrupt_tail_def)
  with whole show ?thesis by (auto simp: frame_one_whole)
qed

text \<open>The framer with its zero-size check moved in front of the length check.\<close>

definition frame_one_zero_first :: "bytes \<Rightarrow> frame_result option" where
  "frame_one_zero_first buf = do {
     len \<leftarrow> byte_at buf 0;
     if size_mul (unat len) 4 = 0 then
       Some \<lparr> fr_status = FrameCorrupt, fr_rtype = 0, fr_record_size = 0 \<rparr>
     else frame_one buf
   }"

text \<open>The order of the checks matters, although the comment calls their conditions mutually
  exclusive: with the zero-size check first, an empty buffer is read out of bounds, and a lone zero
  byte is a corrupt stream instead of an incomplete record.\<close>

lemma frame_one_check_order:
  "frame_one [] \<noteq> None \<and> frame_one_zero_first [] = None \<and>
   map_option fr_status (frame_one [0]) = Some FrameNeedMore \<and>
   map_option fr_status (frame_one_zero_first [0]) = Some FrameCorrupt"
  by (simp add: frame_one_def frame_one_zero_first_def byte_at_def size_mul_def)

end
