(* ===== verification/Assembler.thy ===== *)
theory Assembler
  imports Framer
begin

text \<open>
  \<open>RecordAssembler\<close> of \<open>core/include/trading_sim/dbn_reader.hpp\<close>: the buffer that stitches
  records across chunk boundaries. A pulled record is a view into the buffer (an offset and a
  length), as the \<open>std::span\<close> of the source is, so that what an \<open>append\<close> does to an old view can
  be stated. \<open>asm_run\<close> is the interleaving semantics: any sequence of \<open>append\<close> and \<open>next\<close>.
\<close>

subsection \<open>The code\<close>

datatype pull_status = PullRecord | PullNeedMore | PullCorrupt

record view =
  vw_off :: nat
  vw_len :: nat

record pull_result =
  pl_status :: pull_status
  pl_record :: view

record assembler =
  as_buf :: bytes
  as_read_pos :: nat

definition asm_empty :: assembler where
  "asm_empty = \<lparr> as_buf = [], as_read_pos = 0 \<rparr>"

definition asm_append :: "assembler \<Rightarrow> bytes \<Rightarrow> assembler option" where
  "asm_append a chunk = do {
     a \<leftarrow> (if as_read_pos a \<noteq> 0 then do {
             kept \<leftarrow> span_subspan (as_read_pos a) (as_buf a);
             Some (a\<lparr>as_buf := kept, as_read_pos := 0\<rparr>)
           } else Some a);
     Some (a\<lparr>as_buf := as_buf a @ chunk\<rparr>)
   }"

definition asm_next :: "assembler \<Rightarrow> (pull_result \<times> assembler) option" where
  "asm_next a = do {
     view \<leftarrow> span_subspan (as_read_pos a) (as_buf a);
     r \<leftarrow> frame_one view;
     case fr_status r of
       FrameOk \<Rightarrow> do {
         span_first (fr_record_size r) view;
         Some (\<lparr> pl_status = PullRecord,
                 pl_record = \<lparr> vw_off = as_read_pos a, vw_len = fr_record_size r \<rparr> \<rparr>,
               a\<lparr>as_read_pos := as_read_pos a + fr_record_size r\<rparr>)
       }
     | FrameNeedMore \<Rightarrow>
         Some (\<lparr> pl_status = PullNeedMore, pl_record = \<lparr> vw_off = 0, vw_len = 0 \<rparr> \<rparr>, a)
     | FrameCorrupt \<Rightarrow>
         Some (\<lparr> pl_status = PullCorrupt, pl_record = \<lparr> vw_off = 0, vw_len = 0 \<rparr> \<rparr>, a)
   }"

definition buffered :: "assembler \<Rightarrow> nat" where
  "buffered a = length (as_buf a) - as_read_pos a"

text \<open>Reading through a view uses the buffer as it is at the time of the read.\<close>

definition view_bytes :: "assembler \<Rightarrow> view \<Rightarrow> bytes option" where
  "view_bytes a v = span_slice (vw_off v) (vw_len v) (as_buf a)"

subsection \<open>Invariant and abstraction\<close>

definition asm_wf :: "assembler \<Rightarrow> bool" where
  "asm_wf a \<longleftrightarrow> as_read_pos a \<le> length (as_buf a)"

definition unread :: "assembler \<Rightarrow> bytes" where
  "unread a = drop (as_read_pos a) (as_buf a)"

lemma asm_wf_empty [simp]: "asm_wf asm_empty"
  by (simp add: asm_wf_def asm_empty_def)

lemma unread_empty [simp]: "unread asm_empty = []"
  by (simp add: unread_def asm_empty_def)

lemma as_buf_empty [simp]: "as_buf asm_empty = []"
  by (simp add: asm_empty_def)

lemma buffered_unread: "buffered a = length (unread a)"
  by (simp add: buffered_def unread_def)

lemma asm_append_eq:
  "asm_wf a \<Longrightarrow> asm_append a chunk = Some \<lparr> as_buf = unread a @ chunk, as_read_pos = 0 \<rparr>"
  by (cases a) (simp add: asm_append_def asm_wf_def unread_def span_simps)

lemma append_fresh [simp]:
  "asm_wf \<lparr> as_buf = b, as_read_pos = 0 \<rparr>" "unread \<lparr> as_buf = b, as_read_pos = 0 \<rparr> = b"
  by (simp_all add: asm_wf_def unread_def)

lemma asm_next_short:
  assumes "asm_wf a" and "short_tail (unread a)"
  shows "asm_next a =
    Some (\<lparr> pl_status = PullNeedMore, pl_record = \<lparr> vw_off = 0, vw_len = 0 \<rparr> \<rparr>, a)"
  using assms by (simp add: asm_next_def asm_wf_def unread_def span_simps frame_one_short)

lemma asm_next_corrupt:
  assumes "asm_wf a" and "corrupt_tail (unread a)"
  shows "asm_next a =
    Some (\<lparr> pl_status = PullCorrupt, pl_record = \<lparr> vw_off = 0, vw_len = 0 \<rparr> \<rparr>, a)"
  using assms by (simp add: asm_next_def asm_wf_def unread_def span_simps frame_one_corrupt)

text \<open>A whole record at the front is handed out as a view of exactly its bytes, and skipped.\<close>

definition advance :: "nat \<Rightarrow> assembler \<Rightarrow> assembler" where
  "advance n a = a\<lparr>as_read_pos := as_read_pos a + n\<rparr>"

lemma asm_next_whole:
  assumes "asm_wf a" and "unread a = r @ rest" and "whole_record r"
  shows "asm_next a =
    Some (\<lparr> pl_status = PullRecord,
            pl_record = \<lparr> vw_off = as_read_pos a, vw_len = length r \<rparr> \<rparr>, advance (length r) a)"
  using assms
  by (simp add: asm_next_def asm_wf_def unread_def span_simps frame_one_whole advance_def)

lemma unread_split_length:
  assumes "asm_wf a" and "unread a = r @ rest"
  shows "as_read_pos a + length r + length rest = length (as_buf a)"
proof -
  have "length (as_buf a) - as_read_pos a = length r + length rest"
    using arg_cong [OF assms(2), where f = length] by (simp add: unread_def)
  with assms(1) show ?thesis
    by (simp add: asm_wf_def)
qed

lemma advance_whole:
  assumes "asm_wf a" and "unread a = r @ rest"
  shows "asm_wf (advance (length r) a)" and "unread (advance (length r) a) = rest"
    and "view_bytes (advance (length r) a) \<lparr> vw_off = as_read_pos a, vw_len = length r \<rparr> = Some r"
proof -
  note len = unread_split_length [OF assms]
  show "asm_wf (advance (length r) a)"
    using len by (simp add: asm_wf_def advance_def)
  have "drop (length r) (unread a) = rest"
    using assms(2) by simp
  then show "unread (advance (length r) a) = rest"
    by (simp add: unread_def advance_def add.commute)
  show "view_bytes (advance (length r) a) \<lparr> vw_off = as_read_pos a, vw_len = length r \<rparr> = Some r"
    using len assms(2) by (simp add: view_bytes_def advance_def unread_def span_simps)
qed

subsection \<open>Any interleaving of append and next\<close>

text \<open>
  \<open>asm_run fed out a\<close>: starting from the empty assembler, some sequence of calls has appended
  the bytes \<open>fed\<close>, in chunks of any size, and pulled the records \<open>out\<close>, read while the view was
  fresh; the assembler is now \<open>a\<close>.
\<close>

inductive asm_run :: "bytes \<Rightarrow> bytes list \<Rightarrow> assembler \<Rightarrow> bool" where
  start: "asm_run [] [] asm_empty"
| append: "asm_run fed out a \<Longrightarrow> asm_append a chunk = Some a' \<Longrightarrow> asm_run (fed @ chunk) out a'"
| next_record: "asm_run fed out a \<Longrightarrow> asm_next a = Some (p, a') \<Longrightarrow> pl_status p = PullRecord \<Longrightarrow>
     view_bytes a' (pl_record p) = Some r \<Longrightarrow> asm_run fed (out @ [r]) a'"
| next_none: "asm_run fed out a \<Longrightarrow> asm_next a = Some (p, a') \<Longrightarrow> pl_status p \<noteq> PullRecord \<Longrightarrow>
     asm_run fed out a'"

text \<open>No byte is lost, duplicated or reordered.\<close>

definition asm_inv :: "bytes \<Rightarrow> bytes list \<Rightarrow> assembler \<Rightarrow> bool" where
  "asm_inv fed out a \<longleftrightarrow>
     asm_wf a \<and> fed = concat out @ unread a \<and> (\<forall>r \<in> set out. whole_record r)"

lemma asm_inv_next:
  assumes inv: "asm_inv fed out a" and nxt: "asm_next a = Some (p, a')"
  shows "(pl_status p = PullRecord \<longrightarrow> view_bytes a' (pl_record p) = Some r \<longrightarrow>
            asm_inv fed (out @ [r]) a') \<and>
         (pl_status p \<noteq> PullRecord \<longrightarrow> asm_inv fed out a')"
proof (cases "unread a" rule: front_cases)
  case short
  with inv nxt show ?thesis by (auto simp: asm_inv_def asm_next_short)
next
  case corrupt
  with inv nxt show ?thesis by (auto simp: asm_inv_def asm_next_corrupt)
next
  case (whole r' rest)
  from inv have wf: "asm_wf a" by (simp add: asm_inv_def)
  show ?thesis
    using inv nxt whole advance_whole [OF wf whole(1)]
    by (auto simp: asm_inv_def asm_next_whole [OF wf whole(1)])
qed

lemma asm_run_inv: "asm_run fed out a \<Longrightarrow> asm_inv fed out a"
proof (induction rule: asm_run.induct)
  case start
  show ?case by (simp add: asm_inv_def)
next
  case (append fed out a chunk a')
  then show ?case by (auto simp: asm_inv_def asm_append_eq)
next
  case (next_record fed out a p a' r)
  then show ?case using asm_inv_next by blast
next
  case (next_none fed out a p a')
  then show ?case using asm_inv_next by blast
qed

lemma asm_next_defined: "asm_wf a \<Longrightarrow> \<exists>p a'. asm_next a = Some (p, a')"
  by (cases "unread a" rule: front_cases)
     (auto simp: asm_next_short asm_next_corrupt asm_next_whole)

lemma asm_next_buf:
  assumes "asm_next a = Some (p, a')"
  shows "as_buf a' = as_buf a"
proof -
  obtain r where "frame_one (unread a) = Some r" "asm_wf a"
    using assms by (auto simp: asm_next_def unread_def asm_wf_def span_subspan_def bind_eq_Some_conv
        split: if_splits)
  with assms show ?thesis
    by (cases "fr_status r")
       (auto simp: asm_next_def unread_def asm_wf_def span_subspan_def bind_eq_Some_conv)
qed

lemma asm_run_split:
  assumes "asm_run fed out a"
  shows "split_records fed = (out @ fst (split_records (unread a)), snd (split_records (unread a)))"
proof -
  have inv: "asm_inv fed out a"
    using assms by (rule asm_run_inv)
  let ?rs = "fst (split_records (unread a))" and ?tail = "snd (split_records (unread a))"
  have "fed = concat (out @ ?rs) @ ?tail"
    using inv split_records_sound [of "unread a"] by (simp add: asm_inv_def)
  moreover have "\<forall>r \<in> set (out @ ?rs). whole_record r"
    using inv split_records_sound [of "unread a"] by (auto simp: asm_inv_def)
  ultimately show ?thesis
    using split_records_unique [of "out @ ?rs" ?tail] split_records_sound [of "unread a"] by simp
qed

text \<open>What a consumer of the assembler has to distinguish.\<close>

lemma asm_next_cases:
  assumes "asm_wf a"
  obtains (pulled) p a' rcd where "asm_next a = Some (p, a')" "pl_status p = PullRecord"
      "view_bytes a' (pl_record p) = Some rcd" "vw_len (pl_record p) = length rcd"
      "whole_record rcd" "unread a = rcd @ unread a'" "asm_wf a'"
      "length (unread a') + 4 \<le> length (unread a)"
  | (need_more) p where "asm_next a = Some (p, a)" "pl_status p = PullNeedMore"
      "short_tail (unread a)"
  | (corrupt) p where "asm_next a = Some (p, a)" "pl_status p = PullCorrupt"
      "corrupt_tail (unread a)"
proof (cases "unread a" rule: front_cases)
  case short
  then show ?thesis using need_more asm_next_short [OF assms] by simp
next
  case corrupt
  then show ?thesis using that(3) asm_next_corrupt [OF assms] by simp
next
  case (whole r rest)
  show ?thesis
    using advance_whole [OF assms whole(1)] asm_next_whole [OF assms whole] whole
      whole_record_bounds(1) [OF whole(2)]
    by (intro pulled [where rcd = r and a' = "advance (length r) a"]) auto
qed

subsection \<open>Properties\<close>

text \<open>(C7) However the stream is cut into chunks and however \<open>append\<close> and \<open>next\<close> interleave, the
  bytes fed are the records handed out, in order, followed by the bytes still held, and the records
  handed out are the first records of the stream: no byte is lost, duplicated, reordered or framed
  differently because of a chunk boundary.\<close>

theorem assembler_conserves_bytes:
  assumes "asm_run fed out a"
  shows "fed = concat out @ drop (as_read_pos a) (as_buf a) \<and>
    buffered a = length fed - length (concat out) \<and>
    out = take (length out) (fst (split_records fed))"
  using asm_run_inv [OF assms] asm_run_split [OF assms]
  by (simp add: asm_inv_def unread_def buffered_def)

text \<open>The straddle of the tests: a 4-byte record cut in two by two appends.\<close>

lemma straddle_run:
  "asm_run [1, 2, 3, 4] [[1, 2, 3, 4]] \<lparr> as_buf = [1, 2, 3, 4], as_read_pos = 4 \<rparr>"
proof -
  let ?a1 = "\<lparr> as_buf = [1, 2], as_read_pos = 0 \<rparr>" and ?a2 = "\<lparr> as_buf = [1, 2, 3, 4], as_read_pos = 0 \<rparr>"
  let ?need = "\<lparr> pl_status = PullNeedMore, pl_record = \<lparr> vw_off = 0, vw_len = 0 \<rparr> \<rparr>"
  let ?rec = "\<lparr> pl_status = PullRecord, pl_record = \<lparr> vw_off = 0, vw_len = 4 \<rparr> \<rparr>"
  note eval = asm_append_def asm_empty_def asm_next_def frame_one_def byte_at_def span_subspan_def
    span_first_def size_mul_def
  have "asm_run ([] @ [1, 2]) [] ?a1"
    by (rule asm_run.append [OF asm_run.start]) (simp add: eval)
  then have "asm_run ([] @ [1, 2]) [] ?a1"
    by (rule asm_run.next_none [where p = ?need]) (simp_all add: eval)
  then have "asm_run (([] @ [1, 2]) @ [3, 4]) [] ?a2"
    by (rule asm_run.append) (simp add: eval)
  then have "asm_run (([] @ [1, 2]) @ [3, 4]) ([] @ [[1, 2, 3, 4]]) \<lparr> as_buf = [1, 2, 3, 4], as_read_pos = 4 \<rparr>"
    by (rule asm_run.next_record [where p = ?rec]) (simp_all add: eval view_bytes_def span_slice_def)
  then show ?thesis by simp
qed

theorem assembler_conserves_bytes_witness:
  "[[1, 2, 3, 4]] = take 1 (fst (split_records [1, 2, 3, 4]))"
  using assembler_conserves_bytes [OF straddle_run] by simp

text \<open>(C16) The assembler is complete: when a stream of whole records and a tail that starts none has
  been fed, in any chunks, and \<open>next\<close> has nothing more to give, the records handed out are exactly those
  records and the bytes held are the tail.\<close>

theorem assembler_recovers_records:
  assumes "asm_run (concat rs @ tail) out a" and "\<forall>r \<in> set rs. whole_record r"
    and "short_tail tail \<or> corrupt_tail tail"
    and "asm_next a = Some (p, a')" and "pl_status p \<noteq> PullRecord"
  shows "out = rs \<and> buffered a = length tail \<and> drop (as_read_pos a) (as_buf a) = tail"
proof -
  have "asm_wf a"
    using asm_run_inv [OF assms(1)] by (simp add: asm_inv_def)
  then have "split_records (unread a) = ([], unread a)"
    using assms(4,5) by (cases rule: asm_next_cases) simp_all
  with asm_run_split [OF assms(1)] split_records_unique [OF assms(2,3)] show ?thesis
    by (simp add: buffered_unread unread_def)
qed

theorem assembler_recovers_records_witness:
  "[[1, 2, 3, 4 :: u8]] = [[1, 2, 3, 4]] \<and> buffered \<lparr> as_buf = [1, 2, 3, 4], as_read_pos = 4 \<rparr> = 0"
proof -
  let ?a = "\<lparr> as_buf = [1, 2, 3, 4 :: u8], as_read_pos = 4 \<rparr>"
  let ?p = "\<lparr> pl_status = PullNeedMore, pl_record = \<lparr> vw_off = 0, vw_len = 0 \<rparr> \<rparr>"
  have "asm_run (concat [[1, 2, 3, 4]] @ []) [[1, 2, 3, 4]] ?a"
    using straddle_run by simp
  moreover have "asm_next ?a = Some (?p, ?a)"
    by (rule asm_next_short) (simp_all add: asm_wf_def unread_def short_tail_def)
  ultimately show ?thesis
    using assembler_recovers_records [of "[[1, 2, 3, 4]]" "[]" "[[1, 2, 3, 4]]" ?a ?p ?a]
    by (simp add: whole_record_def short_tail_def)
qed

text \<open>(C17) In every state that any sequence of calls can reach, \<open>next\<close> and \<open>append\<close> return and
  stay inside the buffer, and the span a successful \<open>next\<close> hands out lies inside the buffer.\<close>

theorem assembler_memory_safe:
  assumes "asm_run fed out a"
  shows "(\<exists>p a'. asm_next a = Some (p, a') \<and> view_bytes a' (pl_record p) \<noteq> None) \<and>
    asm_append a chunk \<noteq> None"
proof -
  have wf: "asm_wf a"
    using asm_run_inv [OF assms] by (simp add: asm_inv_def)
  have "\<exists>p a'. asm_next a = Some (p, a') \<and> view_bytes a' (pl_record p) \<noteq> None"
  proof (cases "unread a" rule: front_cases)
    case short
    with wf show ?thesis by (simp add: asm_next_short view_bytes_def span_slice_def)
  next
    case corrupt
    with wf show ?thesis by (simp add: asm_next_corrupt view_bytes_def span_slice_def)
  next
    case (whole r rest)
    with wf show ?thesis by (simp add: asm_next_whole advance_whole(3))
  qed
  with wf show ?thesis by (simp add: asm_append_eq)
qed

theorem assembler_memory_safe_witness:
  "asm_append \<lparr> as_buf = [1, 2, 3, 4], as_read_pos = 4 \<rparr> [7] \<noteq> None"
  using assembler_memory_safe [OF straddle_run] by blast

text \<open>\<open>append\<close> reclaims what was consumed: afterwards the buffer holds the unconsumed bytes and
  the chunk and nothing else. The comment on \<open>buffered()\<close> calls this a construction guarantee that
  cannot be observed.\<close>

lemma append_reclaims:
  assumes "asm_run fed out a" and "asm_append a chunk = Some a'"
  shows "as_read_pos a' = 0 \<and> as_buf a' = drop (as_read_pos a) (as_buf a) @ chunk \<and>
    length (as_buf a') = buffered a + length chunk"
proof -
  have "asm_wf a"
    using asm_run_inv [OF assms(1)] by (simp add: asm_inv_def)
  with assms(2) show ?thesis
    by (auto simp: asm_append_eq unread_def buffered_def)
qed

end
