(* ===== verification/Text.thy ===== *)
theory Text
  imports Prelude
begin

text \<open>
  The part of the C library's text functions that the program uses: \<open>std::to_string\<close> and the
  conversions \<open>%u\<close>, \<open>%zu\<close>, \<open>%llu\<close>, \<open>%lld\<close> and \<open>%c\<close> of \<open>printf\<close>, and \<open>std::atoi\<close> and
  \<open>std::atoll\<close> on the way in. What is printed is read back, and a printed number ends where the
  next character is no digit.
\<close>

subsection \<open>Printing\<close>

fun decimal :: "nat \<Rightarrow> string" where
  "decimal n =
     (if n < 10 then [char_of (48 + n)] else decimal (n div 10) @ [char_of (48 + n mod 10)])"

declare decimal.simps [simp del]

definition decimal_int :: "int \<Rightarrow> string" where
  "decimal_int i = (if i < 0 then CHR ''-'' # decimal (nat (- i)) else decimal (nat i))"

text \<open>\<open>%c\<close> of a byte.\<close>

definition print_char :: "u8 \<Rightarrow> string" where
  "print_char b = [char_of (unat b)]"

abbreviation (input) newline :: char where
  "newline \<equiv> CHR 0x0A"

subsection \<open>Reading\<close>

definition is_digit :: "char \<Rightarrow> bool" where
  "is_digit c \<longleftrightarrow> 48 \<le> (of_char c :: nat) \<and> (of_char c :: nat) \<le> 57"

definition is_space :: "char \<Rightarrow> bool" where
  "is_space c \<longleftrightarrow> (of_char c :: nat) = 32 \<or> 9 \<le> (of_char c :: nat) \<and> (of_char c :: nat) \<le> 13"

definition digits_value :: "string \<Rightarrow> nat" where
  "digits_value ds = foldl (\<lambda>v c. 10 * v + (of_char c - 48)) 0 ds"

text \<open>Leading space, an optional sign, and the digits up to the first other character.\<close>

definition c_number :: "string \<Rightarrow> int" where
  "c_number s =
     (let s = dropWhile is_space s in
      case s of
        [] \<Rightarrow> 0
      | c # cs \<Rightarrow>
          if c = CHR ''-'' then - int (digits_value (takeWhile is_digit cs))
          else if c = CHR ''+'' then int (digits_value (takeWhile is_digit cs))
          else int (digits_value (takeWhile is_digit s)))"

text \<open>The behaviour is undefined when the number does not fit the result type.\<close>

definition c_atoi :: "string \<Rightarrow> int option" where
  "c_atoi s = (if - (2 ^ 31) \<le> c_number s \<and> c_number s < 2 ^ 31 then Some (c_number s) else None)"

definition c_atoll :: "string \<Rightarrow> int option" where
  "c_atoll s = (if - (2 ^ 63) \<le> c_number s \<and> c_number s < 2 ^ 63 then Some (c_number s) else None)"

lemmas c_number_eval =
  c_atoi_def c_atoll_def c_number_def is_space_def is_digit_def digits_value_def

subsection \<open>Reading what was printed\<close>

lemma of_char_digit: "d < 10 \<Longrightarrow> (of_char (char_of (48 + d) :: char) :: nat) = 48 + d"
  by simp

lemma is_digit_decimal: "c \<in> set (decimal n) \<Longrightarrow> is_digit c"
proof (induction n rule: decimal.induct)
  case (1 n)
  show ?case
  proof (cases "n < 10")
    case True
    with "1.prems" show ?thesis
      by (simp add: decimal.simps [of n] is_digit_def)
  next
    case False
    then consider "c \<in> set (decimal (n div 10))" | "c = char_of (48 + n mod 10)"
      using "1.prems" by (auto simp: decimal.simps [of n])
    then show ?thesis
    proof cases
      case 1
      then show ?thesis using "1.IH" False by blast
    next
      case 2
      moreover have "n mod 10 < 10" by simp
      ultimately show ?thesis
        by (simp only: is_digit_def of_char_digit) simp
    qed
  qed
qed

lemma decimal_not_Nil [simp]: "decimal n \<noteq> []"
  by (simp add: decimal.simps)

lemma digits_value_snoc [simp]: "digits_value (ds @ [c]) = 10 * digits_value ds + (of_char c - 48)"
  by (simp add: digits_value_def)

lemma digits_value_decimal [simp]: "digits_value (decimal n) = n"
proof (induction n rule: decimal.induct)
  case (1 n)
  show ?case
  proof (cases "n < 10")
    case True
    then show ?thesis
      by (simp add: decimal.simps [of n] digits_value_def)
  next
    case False
    moreover have "n mod 10 < 10" by simp
    ultimately show ?thesis
      using 1 by (simp only: decimal.simps [of n] if_False digits_value_snoc of_char_digit) simp
  qed
qed

text \<open>A number and the text behind it are both recovered when that text starts with no digit.\<close>

definition ends_number :: "string \<Rightarrow> bool" where
  "ends_number s \<longleftrightarrow> (case s of [] \<Rightarrow> True | c # cs \<Rightarrow> \<not> is_digit c)"

lemma scan_decimal:
  assumes "ends_number s"
  shows "takeWhile is_digit (decimal n @ s) = decimal n" and "dropWhile is_digit (decimal n @ s) = s"
  using assms is_digit_decimal [of _ n]
  by (auto simp: ends_number_def takeWhile_append dropWhile_append split: list.splits)

lemma decimal_inject_append:
  assumes "decimal a @ s = decimal b @ t" and "ends_number s" and "ends_number t"
  shows "a = b \<and> s = t"
proof -
  have "decimal a = decimal b" and "s = t"
    using scan_decimal [OF assms(2), of a] scan_decimal [OF assms(3), of b] assms(1) by simp_all
  then show ?thesis
    by (metis digits_value_decimal)
qed

lemma decimal_inject [simp]: "decimal a = decimal b \<longleftrightarrow> a = b"
  by (metis digits_value_decimal)

lemma unat_inject:
  fixes a b :: "'a::len word"
  shows "unat a = unat b \<longleftrightarrow> a = b"
  by (simp add: word_unat_eq_iff)

lemma hd_decimal_digit: "is_digit (hd (decimal n))"
  by (rule is_digit_decimal [of _ n]) simp

lemma decimal_hd_not: "\<not> is_digit c \<Longrightarrow> decimal n @ s \<noteq> c # t"
  using hd_decimal_digit [of n] by (cases "decimal n") auto

lemma decimal_int_inject_append:
  assumes "decimal_int a @ s = decimal_int b @ t" and "ends_number s" and "ends_number t"
  shows "a = b \<and> s = t"
proof -
  have minus: "\<not> is_digit CHR ''-''"
    by (simp add: is_digit_def)
  note no_minus = decimal_hd_not [OF minus]
  consider (neg) "a < 0" "b < 0" | (pos) "\<not> a < 0" "\<not> b < 0" | (left) "a < 0" "\<not> b < 0"
    | (right) "\<not> a < 0" "b < 0" by blast
  then show ?thesis
  proof cases
    case neg
    then have "decimal (nat (- a)) @ s = decimal (nat (- b)) @ t"
      using assms(1) by (simp add: decimal_int_def)
    from decimal_inject_append [OF this assms(2,3)] neg show ?thesis by (auto simp: eq_nat_nat_iff)
  next
    case pos
    then have "decimal (nat a) @ s = decimal (nat b) @ t"
      using assms(1) by (simp add: decimal_int_def)
    from decimal_inject_append [OF this assms(2,3)] pos show ?thesis by (auto simp: eq_nat_nat_iff)
  next
    case left
    with assms(1) no_minus [of "nat b" t] show ?thesis
      by (simp add: decimal_int_def) metis
  next
    case right
    with assms(1) no_minus [of "nat a" s] show ?thesis
      by (simp add: decimal_int_def)
  qed
qed

lemma c_number_decimal:
  assumes "ends_number s"
  shows "c_number (decimal n @ s) = int n"
proof -
  obtain c cs where d: "decimal n = c # cs" by (cases "decimal n") auto
  then have "is_digit c" using hd_decimal_digit [of n] by simp
  then have c: "\<not> is_space c" "c \<noteq> CHR ''-''" "c \<noteq> CHR ''+''"
    by (auto simp: is_digit_def is_space_def)
  have "takeWhile is_digit (c # cs @ s) = decimal n"
    using scan_decimal(1) [OF assms, of n] d by simp
  then show ?thesis
    using c digits_value_decimal [of n] by (simp add: c_number_def d)
qed

lemma c_atoi_decimal: "n < 2 ^ 31 \<Longrightarrow> c_atoi (decimal n) = Some (int n)"
  using c_number_decimal [of "[]" n] by (simp add: c_atoi_def ends_number_def)

lemma c_atoll_decimal: "n < 2 ^ 63 \<Longrightarrow> c_atoll (decimal n) = Some (int n)"
  using c_number_decimal [of "[]" n] by (simp add: c_atoll_def ends_number_def)

lemma of_print_char: "(of_char (char_of (unat (b :: u8)) :: char) :: nat) = unat b"
  using unsigned_less [of b] by simp

lemma print_char_inject [simp]: "print_char a = print_char b \<longleftrightarrow> a = b"
proof
  assume "print_char a = print_char b"
  then have "(of_char (char_of (unat a) :: char) :: nat) = of_char (char_of (unat b) :: char)"
    by (simp only: print_char_def list.inject)
  then show "a = b"
    by (simp only: of_print_char unat_inject)
qed simp

subsection \<open>Processes\<close>

text \<open>What a process leaves behind.\<close>

record process_result =
  pr_stdout :: string
  pr_stderr :: string
  pr_exit :: int

subsection \<open>Lines\<close>

text \<open>Text that is made of lines, each closed by its only newline, is read back line by line.\<close>

definition is_line :: "string \<Rightarrow> bool" where
  "is_line l \<longleftrightarrow> (\<exists>z. l = z @ [newline] \<and> newline \<notin> set z)"

lemma line_inject_append:
  assumes "is_line x" and "is_line y" and "x @ s = y @ t"
  shows "x = y \<and> s = t"
proof -
  obtain z z' where z: "x = z @ [newline]" "newline \<notin> set z" "y = z' @ [newline]" "newline \<notin> set z'"
    using assms(1,2) by (auto simp: is_line_def)
  have scan: "takeWhile (\<lambda>c. c \<noteq> newline) (u @ newline # v) = u" if "newline \<notin> set u" for u v
    using that by (induction u) auto
  have "z @ newline # s = z' @ newline # t"
    using assms(3) z by simp
  then have "z = z'"
    using scan [OF z(2), of s] scan [OF z(4), of t] by simp
  with z assms(3) show ?thesis by simp
qed

lemma concat_lines_inject:
  assumes "\<forall>x \<in> set xs. is_line x" and "\<forall>y \<in> set ys. is_line y" and "concat xs = concat ys"
  shows "xs = ys"
  using assms
proof (induction xs arbitrary: ys)
  case Nil
  then show ?case by (cases ys) (auto simp: is_line_def)
next
  case (Cons x xs)
  then obtain y ys' where ys: "ys = y # ys'"
    by (cases ys) (auto simp: is_line_def)
  with Cons.prems have "x = y \<and> concat xs = concat ys'"
    using line_inject_append [of x y "concat xs" "concat ys'"] by simp
  with Cons.IH [of ys'] Cons.prems ys show ?case by simp
qed

lemma newline_decimal [simp]: "newline \<notin> set (decimal n)"
  using is_digit_decimal [of newline n] by (auto simp: is_digit_def)

lemma newline_decimal_int [simp]: "newline \<notin> set (decimal_int i)"
  by (simp add: decimal_int_def)

end
