(* ===== verification/Errors.thy ===== *)
theory Errors
  imports Text
begin

text \<open>
  The exceptions the constructors of the ingest stack throw. The code throws \<open>std::runtime_error\<close>, with
  one constructor of the datatype per reason, and \<open>std::vector\<close> throws \<open>std::length_error\<close> for a size it
  cannot have (\<open>VectorTooLong\<close>). \<open>what_stream\<close> and \<open>what_mmap\<close> give the message the streaming and the
  memory-mapped reader build for a reason; that of the vector is worded as in libstdc++.
\<close>

type_synonym path = string

datatype dbn_error =
    CannotOpen path
  | CannotStat path
  | CannotMmap path
  | CannotSize path
  | CannotMap path
  | CannotView path
  | TruncatedHeader
  | BadMagic
  | UnsupportedVersion u8
  | TruncatedMetadata
  | VectorTooLong

text \<open>The largest size of a \<open>std::vector\<close> of bytes: that of an object, \<open>PTRDIFF_MAX\<close>.\<close>

definition vector_max_size :: nat where
  "vector_max_size = 2 ^ 63 - 1"

lemma vector_max_size_numeral [simp]:
  "numeral k \<le> vector_max_size \<longleftrightarrow> numeral k \<le> (9223372036854775807 :: nat)"
  "vector_max_size < numeral k \<longleftrightarrow> (9223372036854775807 :: nat) < numeral k"
  by (simp_all add: vector_max_size_def)

text \<open>What the constructor of the mapped file can throw on some platform.\<close>

definition os_errors :: "path \<Rightarrow> dbn_error set" where
  "os_errors p = {CannotOpen p, CannotStat p, CannotMmap p, CannotSize p, CannotMap p, CannotView p}"

definition unsupported_message :: "string \<Rightarrow> u8 \<Rightarrow> string" where
  "unsupported_message reader v =
     reader @ '': unsupported DBN version '' @ decimal (unat v) @
     '' (only v'' @ decimal 1 @ '' record layout is validated)''"

text \<open>The streaming stack opens files, and never stats or maps one; the mapped one has no vector.\<close>

fun what_stream :: "dbn_error \<Rightarrow> string" where
  "what_stream (CannotOpen p) = ''FileByteSource: cannot open '' @ p"
| "what_stream (CannotStat p) = []"
| "what_stream (CannotMmap p) = []"
| "what_stream (CannotSize p) = []"
| "what_stream (CannotMap p) = []"
| "what_stream (CannotView p) = []"
| "what_stream TruncatedHeader = ''DbnReader: truncated DBN header''"
| "what_stream BadMagic = ''DbnReader: not a DBN stream (bad magic)''"
| "what_stream (UnsupportedVersion v) = unsupported_message ''DbnReader'' v"
| "what_stream TruncatedMetadata = ''DbnReader: truncated DBN metadata''"
| "what_stream VectorTooLong = ''cannot create std::vector larger than max_size()''"

fun what_mmap :: "dbn_error \<Rightarrow> string" where
  "what_mmap (CannotOpen p) = ''MemoryMappedFile: cannot open '' @ p"
| "what_mmap (CannotStat p) = ''MemoryMappedFile: cannot stat '' @ p"
| "what_mmap (CannotMmap p) = ''MemoryMappedFile: cannot mmap '' @ p"
| "what_mmap (CannotSize p) = ''MemoryMappedFile: cannot size '' @ p"
| "what_mmap (CannotMap p) = ''MemoryMappedFile: cannot map '' @ p"
| "what_mmap (CannotView p) = ''MemoryMappedFile: cannot view '' @ p"
| "what_mmap TruncatedHeader = ''MmapDbnReader: truncated DBN header''"
| "what_mmap BadMagic = ''MmapDbnReader: not a DBN stream (bad magic)''"
| "what_mmap (UnsupportedVersion v) = unsupported_message ''MmapDbnReader'' v"
| "what_mmap TruncatedMetadata = ''MmapDbnReader: truncated DBN metadata''"
| "what_mmap VectorTooLong = []"

end
