(* ===== verification/ByteSource.thy ===== *)
theory ByteSource
  imports Errors
begin

text \<open>
  Where the bytes come from. \<open>byte_source\<close> is the contract of the \<open>read(span) -> size_t\<close> shape
  that the streaming reader is written against (\<open>docs/decisions/0021\<close>); \<open>FileByteSource\<close> of
  \<open>core/include/trading_sim/dbn_reader.hpp\<close> provides it, on a model of the part of
  \<open>std::ifstream\<close> it uses. The loops of the streaming reader that only read bytes, \<open>read_fully_\<close>
  and the metadata loop of \<open>skip_prologue_\<close>, are here with what they do on any such source.
\<close>

subsection \<open>The contract of a byte source\<close>

text \<open>
  \<open>rd s dst\<close> is \<open>source.read(dst)\<close>: the count it returns, the buffer it leaves and the new state
  of the source. \<open>pending s\<close> is what the source still has to deliver.
\<close>

locale byte_source =
  fixes rd :: "'s \<Rightarrow> bytes \<Rightarrow> nat \<times> bytes \<times> 's"
    and pending :: "'s \<Rightarrow> bytes"
  assumes read_count: "rd s dst = (n, dst', s') \<Longrightarrow> n \<le> length dst \<and> length dst' = length dst"
    and read_data: "rd s dst = (n, dst', s') \<Longrightarrow> take n dst' @ pending s' = pending s"
    and read_zero: "rd s dst = (0, dst', s') \<Longrightarrow> dst \<noteq> [] \<Longrightarrow> pending s = []"

subsection \<open>FileByteSource\<close>

text \<open>
  The part of \<open>std::ifstream\<close> that is used: opening a file for binary reading, \<open>read\<close> and
  \<open>gcount\<close>. A stream that is not good reads nothing and sets \<open>failbit\<close>; a read that meets the
  end of the file delivers what there is and sets \<open>eofbit\<close> and \<open>failbit\<close>. \<open>if_limit\<close> is the number of
  bytes after which the device fails, if it does: the read that meets it delivers what came before
  and sets \<open>badbit\<close>. (A library whose failing read delivers nothing behaves as one with the limit at
  the last read that succeeded.)
\<close>

type_synonym file_system = "path \<Rightarrow> bytes option"

record ifstream =
  if_content :: bytes
  if_limit :: "nat option"
  if_pos :: nat
  if_eofbit :: bool
  if_failbit :: bool
  if_badbit :: bool

definition ifstream_fresh :: "bytes \<Rightarrow> ifstream" where
  "ifstream_fresh c = \<lparr> if_content = c, if_limit = None, if_pos = 0,
     if_eofbit = False, if_failbit = False, if_badbit = False \<rparr>"

definition ifstream_open :: "file_system \<Rightarrow> path \<Rightarrow> ifstream option" where
  "ifstream_open fs p = map_option ifstream_fresh (fs p)"

definition ifstream_good :: "ifstream \<Rightarrow> bool" where
  "ifstream_good f \<longleftrightarrow> \<not> if_eofbit f \<and> \<not> if_failbit f \<and> \<not> if_badbit f"

definition ifstream_delivers :: "ifstream \<Rightarrow> bytes" where
  "ifstream_delivers f =
     drop (if_pos f) (case if_limit f of None \<Rightarrow> if_content f | Some k \<Rightarrow> take k (if_content f))"

definition istream_read :: "ifstream \<Rightarrow> nat \<Rightarrow> bytes \<times> ifstream" where
  "istream_read f n =
     (if \<not> ifstream_good f then ([], f\<lparr>if_failbit := True\<rparr>)
      else let got = take n (ifstream_delivers f);
               f' = f\<lparr>if_pos := if_pos f + length got\<rparr>
           in (got,
               if length got = n then f'
               else if if_pos f' < length (if_content f) then f'\<lparr>if_badbit := True\<rparr>
               else f'\<lparr>if_eofbit := True, if_failbit := True\<rparr>))"

record file_byte_source =
  fb_file :: ifstream

definition file_source_open :: "file_system \<Rightarrow> path \<Rightarrow> dbn_error + file_byte_source" where
  "file_source_open fs p =
     (case ifstream_open fs p of
        None \<Rightarrow> Inl (CannotOpen p)
      | Some f \<Rightarrow> Inr \<lparr> fb_file = f \<rparr>)"

definition file_read :: "file_byte_source \<Rightarrow> bytes \<Rightarrow> nat \<times> bytes \<times> file_byte_source" where
  "file_read src dst =
     (let (got, f) = istream_read (fb_file src) (length dst)
      in (length got, got @ drop (length got) dst, src\<lparr>fb_file := f\<rparr>))"

definition file_pending :: "file_byte_source \<Rightarrow> bytes" where
  "file_pending src =
     (if ifstream_good (fb_file src) then ifstream_delivers (fb_file src) else [])"

text \<open>The device fails after \<open>k\<close> more bytes, if not before.\<close>

definition device_fails :: "nat \<Rightarrow> file_byte_source \<Rightarrow> file_byte_source" where
  "device_fails k src =
     (let f = fb_file src; limit = if_pos f + k in
      src\<lparr>fb_file := f\<lparr>if_limit :=
        Some (case if_limit f of None \<Rightarrow> limit | Some l \<Rightarrow> min l limit)\<rparr>\<rparr>)"

lemma file_source_open_eq: "file_source_open fs p =
    (case fs p of None \<Rightarrow> Inl (CannotOpen p) | Some c \<Rightarrow> Inr \<lparr> fb_file = ifstream_fresh c \<rparr>)"
  by (cases "fs p") (simp_all add: file_source_open_def ifstream_open_def)

lemma file_pending_open [simp]: "file_pending \<lparr> fb_file = ifstream_fresh c \<rparr> = c"
  by (simp add: file_pending_def ifstream_good_def ifstream_delivers_def ifstream_fresh_def)

lemma istream_read_effect:
  assumes "istream_read f n = (got, f')"
  shows "length got \<le> n"
    and "got @ (if ifstream_good f' then ifstream_delivers f' else []) =
      (if ifstream_good f then ifstream_delivers f else [])"
proof -
  have next_bytes: "ifstream_delivers (f\<lparr>if_pos := if_pos f + m\<rparr>) = drop m (ifstream_delivers f)" for m
    by (cases "if_limit f") (simp_all add: ifstream_delivers_def add.commute)
  show "length got \<le> n"
    using assms by (auto simp: istream_read_def Let_def split: if_splits)
  show "got @ (if ifstream_good f' then ifstream_delivers f' else []) =
      (if ifstream_good f then ifstream_delivers f else [])"
  proof (cases "ifstream_good f")
    case False
    with assms show ?thesis by (auto simp: istream_read_def ifstream_good_def)
  next
    case good: True
    show ?thesis
    proof (cases "n \<le> length (ifstream_delivers f)")
      case True
      with assms good have "got = take n (ifstream_delivers f)"
        and f': "f' = f\<lparr>if_pos := if_pos f + n\<rparr>"
        by (auto simp: istream_read_def Let_def)
      moreover have "ifstream_good f'" and "ifstream_delivers f' = drop n (ifstream_delivers f)"
        using good next_bytes [of n] unfolding f'
        by (simp_all add: ifstream_good_def)
      ultimately show ?thesis using good by simp
    next
      case False
      with assms good have "got = ifstream_delivers f" and "\<not> ifstream_good f'"
        by (auto simp: istream_read_def Let_def ifstream_good_def split: if_splits)
      with good show ?thesis by simp
    qed
  qed
qed

lemma istream_read_nothing:
  assumes "istream_read f n = ([], f')" and "0 < n" and "ifstream_good f"
  shows "ifstream_delivers f = []"
  using assms by (auto simp: istream_read_def Let_def split: if_splits)

interpretation fsrc: byte_source file_read file_pending
proof unfold_locales
  fix s dst n dst' s'
  assume rd: "file_read s dst = (n, dst', s')"
  obtain got f' where read: "istream_read (fb_file s) (length dst) = (got, f')"
    by fastforce
  with rd istream_read_effect [OF read] show "n \<le> length dst \<and> length dst' = length dst"
    and "take n dst' @ file_pending s' = file_pending s"
    by (auto simp: file_read_def file_pending_def)
next
  fix s dst dst' s'
  assume "file_read s dst = (0, dst', s')" and "dst \<noteq> []"
  then show "file_pending s = []"
    using istream_read_nothing [of "fb_file s" "length dst"]
    by (auto simp: file_read_def file_pending_def split: prod.splits)
qed

text \<open>A device that fails leaves the source with what it can still deliver.\<close>

lemma pending_device_fails [simp]: "file_pending (device_fails k src) = take k (file_pending src)"
  by (cases "if_limit (fb_file src)")
    (simp_all add: file_pending_def device_fails_def ifstream_good_def ifstream_delivers_def Let_def
      take_drop min.commute add.commute)

subsection \<open>Reading until a buffer is full\<close>

partial_function (option) read_fully ::
    "('s \<Rightarrow> bytes \<Rightarrow> nat \<times> bytes \<times> 's) \<Rightarrow> 's \<Rightarrow> bytes \<Rightarrow> nat \<Rightarrow> (nat \<times> bytes \<times> 's) option" where
  "read_fully rd s dst tot =
     (if tot < length dst then do {
        sub \<leftarrow> span_subspan tot dst;
        let (n, sub', s') = rd s sub;
        let dst' = take tot dst @ sub';
        if n = 0 then Some (tot, dst', s')
        else read_fully rd s' dst' (tot + n)
      }
      else Some (tot, dst, s))"

declare read_fully.simps [code]

context byte_source begin

lemma read_fully_gets:
  assumes "tot \<le> length dst"
  shows "\<exists>dst' s'. read_fully rd s dst tot =
      Some (tot + min (length dst - tot) (length (pending s)), dst', s') \<and>
    length dst' = length dst \<and>
    take (tot + min (length dst - tot) (length (pending s))) dst' =
      take tot dst @ take (length dst - tot) (pending s) \<and>
    pending s' = drop (length dst - tot) (pending s)"
  using assms
proof (induction "length dst - tot" arbitrary: s dst tot rule: less_induct)
  case less
  show ?case
  proof (cases "tot < length dst")
    case False
    with less.prems show ?thesis by (simp add: read_fully.simps)
  next
    case True
    obtain n sub s1 where rd: "rd s (drop tot dst) = (n, sub, s1)"
      by (cases "rd s (drop tot dst)") auto
    note law = read_count [OF rd] read_data [OF rd]
    show ?thesis
    proof (cases "n = 0")
      case True
      then have "pending s = []" "pending s1 = []"
        using read_zero [of s "drop tot dst" sub s1] rd law \<open>tot < length dst\<close> by auto
      with True \<open>tot < length dst\<close> rd law show ?thesis
        by (simp add: read_fully.simps [of rd s dst tot] span_simps)
    next
      case False
      let ?dst = "take tot dst @ sub"
      have len: "length ?dst = length dst" "tot + n \<le> length ?dst"
        using law \<open>tot < length dst\<close> by auto
      have step: "read_fully rd s dst tot = read_fully rd s1 ?dst (tot + n)"
        using False \<open>tot < length dst\<close> rd
        by (simp add: read_fully.simps [of rd s dst tot] span_simps)
      have pend: "pending s = take n sub @ pending s1" and n: "n \<le> length sub"
        using law by auto
      let ?k = "length dst - tot" and ?k1 = "length ?dst - (tot + n)"
      have k: "?k = n + ?k1" and dec: "?k1 < ?k"
        using len False by auto
      have e1: "tot + min ?k (length (pending s)) = tot + n + min ?k1 (length (pending s1))"
        using n unfolding pend k by simp
      have e2: "take tot dst @ take ?k (pending s) = take (tot + n) ?dst @ take ?k1 (pending s1)"
        using n \<open>tot < length dst\<close> unfolding pend k by simp
      have e3: "drop ?k (pending s) = drop ?k1 (pending s1)"
        using n unfolding pend k by simp
      show ?thesis
        using less.hyps [OF dec len(2), of s1] unfolding step e1 e2 e3 len(1) .
    qed
  qed
qed

end

subsection \<open>The fill loop over a file\<close>

text \<open>The fill loop over a file ends and delivers exactly the next bytes of the file: as many as
  the buffer takes or the file still has, in order, leaving the file where it stopped.\<close>

lemma read_fully_file:
  "\<exists>n dst' src'. read_fully file_read src dst 0 = Some (n, dst', src') \<and>
    n = min (length dst) (length (file_pending src)) \<and> length dst' = length dst \<and>
    take n dst' = take (length dst) (file_pending src) \<and>
    file_pending src' = drop (length dst) (file_pending src)"
  using fsrc.read_fully_gets [of 0 dst src] by auto

end
