(* ===== verification/Routing.thy ===== *)
theory Routing
  imports Dbn Framer
begin

text \<open>
  Shared record routing and the ingest counters of \<open>core/include/trading_sim/dbn_reader.hpp\<close>:
  \<open>route_record\<close>, \<open>tally\<close>, \<open>IngestStats\<close> and the protocol constants. The second half says what
  ingest of a whole byte stream is: the events and the counts of \<open>ingest\<close>, which both readers
  are shown to compute.
\<close>

subsection \<open>Protocol constants\<close>

definition kMboRtype :: u8 where
  "kMboRtype = 0xA0"

definition kSupportedDbnVersion :: u8 where
  "kSupportedDbnVersion = 1"

subsection \<open>Routing one framed record\<close>

text \<open>
  \<open>struct Routed\<close>: the event is meaningful only in the first outcome, so it is the argument
  of that constructor.
\<close>

datatype routed = Emit event | SkipNonMbo | SkipMalformed

definition route_record :: "bytes \<Rightarrow> routed option" where
  "route_record record = do {
     rtype \<leftarrow> byte_at record 1;
     if rtype \<noteq> kMboRtype \<or> length record \<noteq> sizeof_wire_mbo then Some SkipNonMbo
     else do {
       w \<leftarrow> load_wire record;
       e \<leftarrow> to_event w;
       Some (case e of Inr ev \<Rightarrow> Emit ev | Inl err \<Rightarrow> SkipMalformed)
     }
   }"

subsection \<open>Counters\<close>

record ingest_stats =
  st_records :: u64
  st_events :: u64
  st_skipped_non_mbo :: u64
  st_skipped_malformed :: u64

definition stats_zero :: ingest_stats where
  "stats_zero = \<lparr> st_records = 0, st_events = 0, st_skipped_non_mbo = 0, st_skipped_malformed = 0 \<rparr>"

fun tally :: "ingest_stats \<Rightarrow> routed \<Rightarrow> event option \<times> ingest_stats" where
  "tally stats (Emit ev) =
     (Some ev, stats\<lparr>st_records := st_records stats + 1, st_events := st_events stats + 1\<rparr>)"
| "tally stats SkipNonMbo =
     (None, stats\<lparr>st_records := st_records stats + 1,
                 st_skipped_non_mbo := st_skipped_non_mbo stats + 1\<rparr>)"
| "tally stats SkipMalformed =
     (None, stats\<lparr>st_records := st_records stats + 1,
                 st_skipped_malformed := st_skipped_malformed stats + 1\<rparr>)"

subsection \<open>Facts about routing\<close>

lemma route_record_defined:
  assumes "2 \<le> length rcd"
  shows "\<exists>r. route_record rcd = Some r"
proof -
  obtain w where w: "length rcd = 56 \<Longrightarrow> load_wire rcd = Some w"
    using load_wire_Some_iff [of rcd] by (cases "length rcd = 56") auto
  obtain e where "to_event w = Some e"
    using to_event_total by blast
  with assms w show ?thesis
    by (auto simp: route_record_def span_simps sizeof_wire_mbo_def)
qed

text \<open>The routing decision as a total function on records, for the specification.\<close>

definition routing :: "bytes \<Rightarrow> routed" where
  "routing record = (case route_record record of Some r \<Rightarrow> r | None \<Rightarrow> SkipNonMbo)"

lemma route_whole_record: "whole_record r \<Longrightarrow> route_record r = Some (routing r)"
  using route_record_defined [of r] whole_record_bounds(1) [of r] by (auto simp: routing_def)

lemma load_store_wire0 [simp]: "load_wire (store_wire w) = Some w"
  using load_store_wire [of w "[]"] by simp

lemma byte_at_store_wire: "byte_at (store_wire w) (Suc 0) = Some (w_rtype w)"
  by (simp add: byte_at_def) (simp add: store_wire_def le_bytes_def)

lemma hd_store_wire: "hd (store_wire w) = w_length w"
  by (simp add: store_wire_def le_bytes_def)

lemma route_store_wire:
  "route_record (store_wire w) =
     (if w_rtype w \<noteq> kMboRtype then Some SkipNonMbo
      else map_option (\<lambda>e. case e of Inr ev \<Rightarrow> Emit ev | Inl err \<Rightarrow> SkipMalformed) (to_event w))"
  by (cases "to_event w")
     (simp_all add: route_record_def byte_at_store_wire sizeof_wire_mbo_def)

lemma routing_EmitD:
  assumes "routing r = Emit e"
  shows "\<exists>w. r = store_wire w \<and> w_rtype w = kMboRtype \<and> to_event w = Some (Inr e)"
proof -
  have route: "route_record r = Some (Emit e)"
    using assms by (auto simp: routing_def split: option.splits)
  then have len: "length r = 56"
    by (auto simp: route_record_def sizeof_wire_mbo_def bind_eq_Some_conv split: if_splits)
  then obtain w where w: "load_wire r = Some w"
    using load_wire_Some_iff [of r] by auto
  then have r: "r = store_wire w"
    using store_load_wire [OF len w] by simp
  obtain z where z: "to_event w = Some z"
    using to_event_total by blast
  have "w_rtype w = kMboRtype \<and> z = Inr e"
    using route z unfolding r by (cases z) (simp_all add: route_store_wire split: if_splits)
  with r z show ?thesis by blast
qed

subsection \<open>What ingest of a byte stream is\<close>

definition event_of :: "routed \<Rightarrow> event option" where
  "event_of r = (case r of Emit e \<Rightarrow> Some e | SkipNonMbo \<Rightarrow> None | SkipMalformed \<Rightarrow> None)"

text \<open>The records of the stream in order, each emitted or counted as skipped.\<close>

definition stream_events :: "bytes \<Rightarrow> event list" where
  "stream_events bs = List.map_filter (event_of \<circ> routing) (fst (split_records bs))"

definition stream_stats :: "ingest_stats \<Rightarrow> bytes \<Rightarrow> ingest_stats" where
  "stream_stats st bs = fold (\<lambda>r s. snd (tally s (routing r))) (fst (split_records bs)) st"

definition stream_corrupt :: "bytes \<Rightarrow> bool" where
  "stream_corrupt bs = corrupt_tail (snd (split_records bs))"

lemma fst_tally [simp]: "fst (tally st r) = event_of r"
  by (cases r) (simp_all add: event_of_def)

lemma tally_eq: "tally st r = (event_of r, snd (tally st r))"
  by (metis fst_tally prod.collapse)

text \<open>One call of \<open>next()\<close> on the unframed bytes: the event, what is left, the counters, and
  whether the call met a corrupt frame.\<close>

function pull :: "bytes \<Rightarrow> ingest_stats \<Rightarrow> event option \<times> bytes \<times> ingest_stats \<times> bool" where
  "pull bs st =
     (if short_tail bs then (None, bs, st, False)
      else if corrupt_tail bs then (None, bs, st, True)
      else let n = 4 * unat (hd bs); (e, st') = tally st (routing (take n bs))
           in if e \<noteq> None then (e, drop n bs, st', False) else pull (drop n bs) st')"
  by pat_completeness auto
termination
  by (relation "measure (\<lambda>(bs, st). length bs)") (auto dest: drop_record_less)

declare pull.simps [simp del]

lemma pull_short [simp]: "short_tail bs \<Longrightarrow> pull bs st = (None, bs, st, False)"
  by (simp add: pull.simps)

lemma pull_corrupt [simp]: "corrupt_tail bs \<Longrightarrow> pull bs st = (None, bs, st, True)"
  by (simp add: pull.simps not_corrupt_and_short)

lemma pull_whole:
  assumes "whole_record r"
  shows "pull (r @ rest) st =
    (case event_of (routing r) of
       Some e \<Rightarrow> (Some e, rest, snd (tally st (routing r)), False)
     | None \<Rightarrow> pull rest (snd (tally st (routing r))))"
proof -
  have "hd (r @ rest) = hd r" "r \<noteq> []" "length r = 4 * unat (hd r)"
    using assms by (auto simp: whole_record_def)
  moreover have "\<not> short_tail (r @ rest)" "\<not> corrupt_tail (r @ rest)"
    using assms whole_record_bounds [OF assms]
    by (auto simp: short_tail_def corrupt_tail_def whole_record_def)
  ultimately show ?thesis
    by (subst pull.simps, subst tally_eq) (auto simp: Let_def split: option.splits)
qed

lemma stream_events_stop [simp]:
  "short_tail bs \<Longrightarrow> stream_events bs = []"
  "corrupt_tail bs \<Longrightarrow> stream_events bs = []"
  by (simp_all add: stream_events_def map_filter_def)

lemma stream_stats_stop [simp]:
  "short_tail bs \<Longrightarrow> stream_stats st bs = st"
  "corrupt_tail bs \<Longrightarrow> stream_stats st bs = st"
  by (simp_all add: stream_stats_def)

lemma stream_corrupt_stop [simp]:
  "short_tail bs \<Longrightarrow> \<not> stream_corrupt bs"
  "corrupt_tail bs \<Longrightarrow> stream_corrupt bs"
  using not_corrupt_and_short [of bs] by (auto simp: stream_corrupt_def)

lemma stream_whole:
  assumes "whole_record r"
  shows "stream_events (r @ rest) =
      (case event_of (routing r) of Some e \<Rightarrow> e # stream_events rest | None \<Rightarrow> stream_events rest)"
    and "stream_stats st (r @ rest) = stream_stats (snd (tally st (routing r))) rest"
    and "stream_corrupt (r @ rest) = stream_corrupt rest"
  using assms
  by (auto simp: stream_events_def stream_stats_def stream_corrupt_def split_records_whole split: option.splits)

text \<open>An event takes 56 bytes.\<close>

lemma routing_Emit_length: "routing r = Emit e \<Longrightarrow> length r = 56"
  using routing_EmitD [of r e] by auto

lemma stream_events_length: "56 * length (stream_events bs) \<le> length bs"
proof (induction bs rule: stream_induct)
  case (whole r rest)
  then show ?case
    using routing_Emit_length [of r] by (cases "routing r") (auto simp: stream_whole event_of_def)
qed simp_all

text \<open>A call that returns an event yields the first event of the stream and leaves the others;
  a call that returns none has framed the whole stream.\<close>

lemma pull_Some:
  assumes "pull bs st = (Some e, rest, st', c)"
  shows "stream_events bs = e # stream_events rest"
    and "stream_stats st bs = stream_stats st' rest"
    and "stream_corrupt bs = stream_corrupt rest" and "\<not> c"
    and "length rest + 4 \<le> length bs"
    and "snd (split_records rest) = snd (split_records bs)"
  using assms
proof (induction bs arbitrary: st rule: stream_induct)
  case (whole r rest)
  {
    case 1
    with whole show ?case by (auto simp: pull_whole stream_whole split: option.splits)
  next
    case 2
    with whole show ?case by (auto simp: pull_whole stream_whole split: option.splits)
  next
    case 3
    with whole show ?case by (auto simp: pull_whole stream_whole split: option.splits)
  next
    case 4
    with whole show ?case by (auto simp: pull_whole stream_whole split: option.splits)
  next
    case 5
    with whole show ?case
      using whole_record_bounds(1) [of r]
      by (fastforce simp: pull_whole stream_whole split: option.splits)
  next
    case 6
    with whole show ?case
      by (auto simp: pull_whole split_records_whole split: option.splits)
  }
qed auto

lemma pull_None:
  assumes "pull bs st = (None, rest, st', c)"
  shows "stream_events bs = []" and "st' = stream_stats st bs"
    and "c = stream_corrupt bs" and "rest = snd (split_records bs)"
  using assms
proof (induction bs arbitrary: st rule: stream_induct)
  case (whole r rest)
  {
    case 1
    with whole show ?case by (auto simp: pull_whole stream_whole split: option.splits)
  next
    case 2
    with whole show ?case by (auto simp: pull_whole stream_whole split: option.splits)
  next
    case 3
    with whole show ?case by (auto simp: pull_whole stream_whole split: option.splits)
  next
    case 4
    with whole show ?case
      by (auto simp: pull_whole stream_whole split_records_whole split: option.splits)
  }
qed auto

text \<open>What a call has framed means the same in front of any bytes, not just those that follow it.\<close>

lemma pull_frames:
  assumes "pull bs st = (e, rest, st', c)"
  shows "\<exists>framed. bs = framed @ rest \<and>
    (\<forall>x. stream_events (framed @ x) = (case e of None \<Rightarrow> [] | Some ev \<Rightarrow> [ev]) @ stream_events x \<and>
         stream_stats st (framed @ x) = stream_stats st' x \<and>
         stream_corrupt (framed @ x) = stream_corrupt x)"
  using assms
proof (induction bs arbitrary: st rule: stream_induct)
  case (whole r bs)
  show ?case
  proof (cases "event_of (routing r)")
    case None
    with whole obtain framed where "bs = framed @ rest"
      "\<forall>x. stream_events (framed @ x) = (case e of None \<Rightarrow> [] | Some ev \<Rightarrow> [ev]) @ stream_events x \<and>
         stream_stats (snd (tally st (routing r))) (framed @ x) = stream_stats st' x \<and>
         stream_corrupt (framed @ x) = stream_corrupt x"
      by (auto simp: pull_whole)
    with None whole(1) show ?thesis
      by (intro exI [of _ "r @ framed"]) (simp add: stream_whole)
  next
    case (Some ev)
    with whole(1,3) show ?thesis
      by (intro exI [of _ r]) (auto simp: pull_whole stream_whole split: option.splits)
  qed
qed (intro exI [of _ "[]"], auto)+

text \<open>The counters after one call: every framed record is counted once, under one reason.\<close>

definition stats_balanced :: "ingest_stats \<Rightarrow> bool" where
  "stats_balanced st \<longleftrightarrow>
     st_records st = st_events st + st_skipped_non_mbo st + st_skipped_malformed st"

lemma stats_balanced_zero [simp]: "stats_balanced stats_zero"
  by (simp add: stats_balanced_def stats_zero_def)

lemma tally_balanced [simp]: "stats_balanced (snd (tally st r)) = stats_balanced st"
  by (cases r) (auto simp: stats_balanced_def algebra_simps)

lemma pull_stats:
  assumes "pull bs st = (e, rest, st', c)"
  shows "stats_balanced st' = stats_balanced st"
    and "st_events st' = st_events st + of_bool (e \<noteq> None)"
  using assms
proof (induction bs arbitrary: st rule: stream_induct)
  case (whole r rest)
  {
    case 1
    with whole show ?case by (auto simp: pull_whole split: option.splits)
  next
    case 2
    with whole show ?case
      by (cases "routing r") (auto simp: pull_whole event_of_def)
  }
qed auto

subsection \<open>Properties\<close>

lemma load_byte: "off < length buf \<Longrightarrow> (load_field off (Suc 0) buf :: u8) = buf ! off"
  by (simp add: load_field_def take_Suc_conv_app_nth le_word_def hd_drop_conv_nth)

text \<open>(C18) Routing needs two bytes, and is decided by the rtype byte, the length and the action and
  side bytes at offsets 38 and 39: a record of another rtype or size is skipped as non-MBO, a 56-byte
  MBO record with an invalid action or side as malformed, and every other one is emitted.\<close>

theorem route_record_decides:
  "(route_record r = None \<longleftrightarrow> length r < 2) \<and>
   (route_record r = Some SkipNonMbo \<longleftrightarrow>
      2 \<le> length r \<and> \<not> (r ! 1 = 0xA0 \<and> length r = 56)) \<and>
   (route_record r = Some SkipMalformed \<longleftrightarrow>
      length r = 56 \<and> r ! 1 = 0xA0 \<and> \<not> (is_valid_action (r ! 38) \<and> is_valid_side (r ! 39))) \<and>
   ((\<exists>e. route_record r = Some (Emit e)) \<longleftrightarrow>
      length r = 56 \<and> r ! 1 = 0xA0 \<and> is_valid_action (r ! 38) \<and> is_valid_side (r ! 39))"
proof (cases "length r = 56 \<and> r ! 1 = 0xA0")
  case False
  then show ?thesis
    by (auto simp: route_record_def byte_at_def kMboRtype_def sizeof_wire_mbo_def)
next
  case True
  then obtain w where w: "load_wire r = Some w"
    using load_wire_Some_iff [of r] by auto
  have bytes: "w_action w = r ! 38" "w_side w = r ! 39"
    using w True by (auto simp: load_wire_def sizeof_wire_mbo_def load_byte)
  have route: "route_record r =
      map_option (\<lambda>e. case e of Inr ev \<Rightarrow> Emit ev | Inl err \<Rightarrow> SkipMalformed) (to_event w)"
    using True w by (cases "to_event w")
      (simp_all add: route_record_def byte_at_def kMboRtype_def sizeof_wire_mbo_def)
  show ?thesis
    using True by (cases w rule: to_event_cases) (auto simp: route bytes [symmetric])
qed

end
