(* ===== verification/Contract.thy ===== *)
theory Contract
  imports Routing
begin

text \<open>
  The contract both readers offer their consumers (\<open>next()\<close>, \<open>failed()\<close>, \<open>stats()\<close>,
  \<open>version()\<close>; \<open>docs/decisions/0021\<close>) as the locale \<open>pull_reader\<close>: on the bytes it has not
  framed yet, one call of \<open>next()\<close> does what \<open>pull\<close> specifies. The consumers' loop
  \<open>for (auto e = reader.next(); e.has_value(); e = reader.next())\<close> is \<open>drain\<close>, and what it
  sees is proved once, for every reader with this contract.
\<close>

partial_function (option) drain ::
    "('r \<Rightarrow> (event option \<times> 'r) option) \<Rightarrow> 'r \<Rightarrow> (event list \<times> 'r) option" where
  "drain nxt r = do {
     (e, r) \<leftarrow> nxt r;
     case e of
       None \<Rightarrow> Some ([], r)
     | Some ev \<Rightarrow> do {
         (es, r) \<leftarrow> drain nxt r;
         Some (ev # es, r)
       }
   }"

declare drain.simps [code]

text \<open>What no call of \<open>next()\<close> changes, the loop does not change either.\<close>

lemma drain_keeps:
  assumes keeps: "\<And>r y. nxt r = Some y \<Longrightarrow> g (snd y) = g r" and run: "drain nxt r = Some y"
  shows "g (snd y) = g r"
proof -
  have "(\<forall>r y. nxt r = Some y \<longrightarrow> g (snd y) = g r) \<longrightarrow> g (snd y) = g r"
  proof (rule drain.raw_induct [where P = "\<lambda>nxt r y.
      (\<forall>r y. nxt r = Some y \<longrightarrow> g (snd y) = g r) \<longrightarrow> g (snd y) = g r", OF _ run], goal_cases)
    case (1 dr nxt r y)
    from 1(2) obtain e r1 where nxt: "nxt r = Some (e, r1)"
      by (auto simp: bind_eq_Some_conv)
    with 1(2) have "e = None \<and> y = ([], r1) \<or> (\<exists>z. dr nxt r1 = Some z \<and> snd y = snd z)"
      by (auto simp: bind_eq_Some_conv split: option.splits)
    with 1(1) nxt show ?case by fastforce
  qed
  with keeps show ?thesis by blast
qed

text \<open>
  Any number of calls, stopped at any point: \<open>pulls nxt r0 es r\<close> when the calls so far returned the
  events \<open>es\<close> and left the reader in the state \<open>r\<close>.
\<close>

inductive pulls ::
    "('r \<Rightarrow> (event option \<times> 'r) option) \<Rightarrow> 'r \<Rightarrow> event list \<Rightarrow> 'r \<Rightarrow> bool" for nxt r0 where
  none: "pulls nxt r0 [] r0"
| event: "pulls nxt r0 es r \<Longrightarrow> nxt r = Some (Some ev, r') \<Longrightarrow> pulls nxt r0 (es @ [ev]) r'"
| ended: "pulls nxt r0 es r \<Longrightarrow> nxt r = Some (None, r') \<Longrightarrow> pulls nxt r0 es r'"

text \<open>A given number of calls.\<close>

fun call_times ::
    "('r \<Rightarrow> (event option \<times> 'r) option) \<Rightarrow> nat \<Rightarrow> 'r \<Rightarrow> (event list \<times> 'r) option" where
  "call_times nxt 0 r = Some ([], r)"
| "call_times nxt (Suc n) r = do {
     (e, r) \<leftarrow> nxt r;
     (es, r) \<leftarrow> call_times nxt n r;
     Some ((case e of None \<Rightarrow> [] | Some ev \<Rightarrow> [ev]) @ es, r)
   }"

text \<open>The same number of calls, as the specification \<open>pull\<close> has them: the events, what is left, the
  counters and the failure flag.\<close>

fun pull_times ::
    "nat \<Rightarrow> bytes \<Rightarrow> ingest_stats \<Rightarrow> bool \<Rightarrow> event list \<times> bytes \<times> ingest_stats \<times> bool" where
  "pull_times 0 bs st c = ([], bs, st, c)"
| "pull_times (Suc n) bs st c =
     (let (e, bs', st', c') = pull bs st;
          (es, s) = pull_times n bs' st' (c \<or> c')
      in ((case e of None \<Rightarrow> [] | Some ev \<Rightarrow> [ev]) @ es, s))"

text \<open>What is behind the whole records holds no event and counts nothing.\<close>

lemma split_tail [simp]:
  "split_records (snd (split_records bs)) = ([], snd (split_records bs))"
  using split_records_sound [of bs] by auto

lemma stream_tail [simp]:
  "stream_events (snd (split_records bs)) = []"
  "stream_stats st (snd (split_records bs)) = st"
  "stream_corrupt (snd (split_records bs)) = stream_corrupt bs"
  by (simp_all add: stream_events_def stream_stats_def stream_corrupt_def map_filter_def)

locale pull_reader =
  fixes nxt :: "'r \<Rightarrow> (event option \<times> 'r) option"
    and rest :: "'r \<Rightarrow> bytes"
    and stats :: "'r \<Rightarrow> ingest_stats"
    and failed :: "'r \<Rightarrow> bool"
    and version :: "'r \<Rightarrow> u8"
    and inv :: "'r \<Rightarrow> bool"
  assumes next_pull: "inv r \<Longrightarrow> pull (rest r) (stats r) = (e, bs, st, c) \<Longrightarrow>
      \<exists>r'. nxt r = Some (e, r') \<and> inv r' \<and> rest r' = bs \<and> stats r' = st \<and>
           failed r' = (failed r \<or> c) \<and> version r' = version r"
begin

lemma next_returns: "inv r \<Longrightarrow> \<exists>e r'. nxt r = Some (e, r') \<and> inv r'"
  using next_pull by (metis prod_cases4)

lemma next_SomeD:
  assumes "inv r" and "nxt r = Some (Some e, r')"
  shows "inv r' \<and> stream_events (rest r) = e # stream_events (rest r') \<and>
    stream_stats (stats r) (rest r) = stream_stats (stats r') (rest r') \<and>
    stream_corrupt (rest r) = stream_corrupt (rest r') \<and> failed r' = failed r \<and>
    version r' = version r \<and> length (rest r') + 4 \<le> length (rest r) \<and>
    snd (split_records (rest r')) = snd (split_records (rest r))"
proof -
  obtain e1 bs st c where pull: "pull (rest r) (stats r) = (e1, bs, st, c)"
    by (cases "pull (rest r) (stats r)") auto
  from next_pull [OF assms(1) this] assms(2) have "e1 = Some e" and "inv r' \<and> rest r' = bs \<and>
      stats r' = st \<and> failed r' = (failed r \<or> c) \<and> version r' = version r"
    by auto
  with pull_Some [of "rest r" "stats r" e bs st c] pull show ?thesis by auto
qed

lemma next_NoneD:
  assumes "inv r" and "nxt r = Some (None, r')"
  shows "inv r' \<and> rest r' = snd (split_records (rest r)) \<and> stream_events (rest r) = [] \<and>
    stats r' = stream_stats (stats r) (rest r) \<and>
    failed r' = (failed r \<or> stream_corrupt (rest r)) \<and> version r' = version r"
proof -
  obtain e1 bs st c where pull: "pull (rest r) (stats r) = (e1, bs, st, c)"
    by (cases "pull (rest r) (stats r)") auto
  from next_pull [OF assms(1) this] assms(2) have "e1 = None" and "inv r' \<and> rest r' = bs \<and>
      stats r' = st \<and> failed r' = (failed r \<or> c) \<and> version r' = version r"
    by auto
  with pull_None [of "rest r" "stats r" bs st c] pull show ?thesis by auto
qed

text \<open>Once \<open>next()\<close> has returned nothing it returns nothing, and nothing observable changes.\<close>

lemma next_None_sticky:
  assumes inv: "inv r" and none: "nxt r = Some (None, r')"
  shows "\<exists>r''. nxt r' = Some (None, r'') \<and> inv r'' \<and> rest r'' = rest r' \<and>
    stats r'' = stats r' \<and> failed r'' = failed r' \<and> version r'' = version r'"
proof -
  note D = next_NoneD [OF inv none]
  have tail: "short_tail (rest r') \<and> \<not> stream_corrupt (rest r) \<or>
      corrupt_tail (rest r') \<and> stream_corrupt (rest r)"
    using D split_records_sound [of "rest r"] not_corrupt_and_short [of "rest r'"]
    by (auto simp: stream_corrupt_def)
  then have "pull (rest r') (stats r') = (None, rest r', stats r', stream_corrupt (rest r))"
    by auto
  moreover have "inv r'" "failed r' = (failed r' \<or> stream_corrupt (rest r))"
    using D by auto
  ultimately show ?thesis
    using next_pull [of r'] by blast
qed

text \<open>The consumer's loop: it ends, and sees the events and the counts of the whole stream.\<close>

lemma drain_ingest:
  assumes "inv r"
  shows "\<exists>r'. drain nxt r = Some (stream_events (rest r), r') \<and> inv r' \<and>
    rest r' = snd (split_records (rest r)) \<and> stats r' = stream_stats (stats r) (rest r) \<and>
    failed r' = (failed r \<or> stream_corrupt (rest r)) \<and> version r' = version r"
  using assms
proof (induction "length (rest r)" arbitrary: r rule: less_induct)
  case less
  obtain e r1 where nxt: "nxt r = Some (e, r1)"
    using next_returns [OF less.prems] by blast
  show ?case
  proof (cases e)
    case None
    with nxt next_NoneD [OF less.prems, of r1] show ?thesis
      by (simp add: drain.simps [of nxt r])
  next
    case (Some ev)
    note D = next_SomeD [OF less.prems, of ev r1]
    from Some nxt D have "length (rest r1) < length (rest r)" "inv r1" by auto
    note IH = less.hyps [OF this]
    from IH D Some nxt show ?thesis
      by (auto simp: drain.simps [of nxt r])
  qed
qed

lemma next_stats:
  assumes "inv r" and "nxt r = Some (e, r')"
  shows "stats_balanced (stats r') = stats_balanced (stats r) \<and>
    st_events (stats r') = st_events (stats r) + of_bool (e \<noteq> None)"
proof -
  obtain e1 bs st c where pull: "pull (rest r) (stats r) = (e1, bs, st, c)"
    by (cases "pull (rest r) (stats r)") auto
  from next_pull [OF assms(1) this] assms(2) have "e1 = e" "stats r' = st"
    by auto
  with pull_stats [OF pull] show ?thesis by simp
qed

text \<open>
  At every moment of every run the events returned are a prefix of the events of the stream, in
  order, the rest is still to come, and the counters are those of what was framed.
\<close>

lemma pulls_prefix:
  assumes "pulls nxt r0 es r" and "inv r0" and "\<not> failed r0" and "stats r0 = stats_zero"
  shows "inv r \<and> stream_events (rest r0) = es @ stream_events (rest r) \<and>
    stream_corrupt (rest r) = stream_corrupt (rest r0) \<and>
    stream_stats (stats r) (rest r) = stream_stats stats_zero (rest r0) \<and>
    stats_balanced (stats r) \<and> st_events (stats r) = of_nat (length es) \<and>
    version r = version r0 \<and>
    (failed r \<longrightarrow> stream_corrupt (rest r0) \<and> stream_events (rest r) = [])"
  using assms(1)
proof (induction rule: pulls.induct)
  case none
  with assms(2-) show ?case by (simp add: stats_zero_def stats_balanced_def)
next
  case (event es r ev r')
  then have "inv r" by blast
  with event next_SomeD [OF this event.hyps(2)] next_stats [OF this event.hyps(2)]
  show ?case by auto
next
  case (ended es r r')
  then have inv: "inv r" by blast
  from ended.IH next_NoneD [OF inv ended.hyps(2)] next_stats [OF inv ended.hyps(2)]
  show ?case
    by auto
qed

text \<open>Any number of calls does what the specification does, whatever the reader keeps inside.\<close>

lemma call_times_pull:
  assumes "inv r" and "pull_times n (rest r) (stats r) (failed r) = (es, bs, st, c)"
  shows "\<exists>r'. call_times nxt n r = Some (es, r') \<and> inv r' \<and> rest r' = bs \<and> stats r' = st \<and>
    failed r' = c \<and> version r' = version r"
  using assms
proof (induction n arbitrary: r es)
  case (Suc n)
  obtain e bs1 st1 c1 where pull: "pull (rest r) (stats r) = (e, bs1, st1, c1)"
    by (cases "pull (rest r) (stats r)") auto
  obtain es1 where times: "pull_times n bs1 st1 (failed r \<or> c1) = (es1, bs, st, c)"
    and es: "es = (case e of None \<Rightarrow> [] | Some ev \<Rightarrow> [ev]) @ es1"
    using Suc.prems(2) pull by (auto split: prod.splits)
  obtain r1 where r1: "nxt r = Some (e, r1)" "inv r1" "rest r1 = bs1" "stats r1 = st1"
    "failed r1 = (failed r \<or> c1)" "version r1 = version r"
    using next_pull [OF Suc.prems(1) pull] by blast
  from Suc.IH [OF r1(2), of es1] times r1(3-) obtain r' where
    "call_times nxt n r1 = Some (es1, r')" "inv r'" "rest r' = bs" "stats r' = st" "failed r' = c"
    "version r' = version r"
    by auto
  with r1(1) es show ?case by auto
qed simp

text \<open>After any run the stream is what has been framed, which counts the same in front of any bytes,
  and the rest.\<close>

lemma pulls_frames:
  assumes "pulls nxt r0 es r" and "inv r0"
  shows "inv r \<and> (\<exists>framed. rest r0 = framed @ rest r \<and>
    (\<forall>x. stream_events (framed @ x) = es @ stream_events x \<and>
         stream_stats (stats r0) (framed @ x) = stream_stats (stats r) x \<and>
         stream_corrupt (framed @ x) = stream_corrupt x))"
proof -
  have step: "inv r' \<and> (\<exists>framed. rest r0 = framed @ rest r' \<and>
      (\<forall>x. stream_events (framed @ x) = es @ (case e of None \<Rightarrow> [] | Some ev \<Rightarrow> [ev]) @ stream_events x \<and>
         stream_stats (stats r0) (framed @ x) = stream_stats (stats r') x \<and>
         stream_corrupt (framed @ x) = stream_corrupt x))"
    if "inv r" and nxt: "nxt r = Some (e, r')" and rest: "rest r0 = framed @ rest r"
      and framed: "\<forall>x. stream_events (framed @ x) = es @ stream_events x \<and>
         stream_stats (stats r0) (framed @ x) = stream_stats (stats r) x \<and>
         stream_corrupt (framed @ x) = stream_corrupt x"
    for r e r' es framed
  proof -
    obtain e1 bs st c where pull: "pull (rest r) (stats r) = (e1, bs, st, c)"
      by (cases "pull (rest r) (stats r)") auto
    from next_pull [OF \<open>inv r\<close> pull] nxt have r': "e1 = e" "inv r'" "rest r' = bs" "stats r' = st"
      by auto
    obtain front where front: "rest r = front @ bs"
      "\<forall>x. stream_events (front @ x) = (case e of None \<Rightarrow> [] | Some ev \<Rightarrow> [ev]) @ stream_events x \<and>
         stream_stats (stats r) (front @ x) = stream_stats st x \<and>
         stream_corrupt (front @ x) = stream_corrupt x"
      using pull_frames [OF pull] r'(1) by blast
    with framed rest r' show ?thesis
      by (intro conjI exI [of _ "framed @ front"]) simp_all
  qed
  show ?thesis
    using assms(1)
  proof (induction rule: pulls.induct)
    case none
    with assms(2) show ?case by (intro conjI exI [of _ "[]"]) simp_all
  next
    case (event es r ev r')
    with step [of r "Some ev" r' _ es] show ?case by fastforce
  next
    case (ended es r r')
    with step [of r None r' _ es] show ?case by fastforce
  qed
qed

text \<open>Any number of calls yields that many events, and one call beyond the last event the counters
  and the failure flag are those of the whole stream.\<close>

lemma call_times_events:
  assumes "inv r"
  shows "\<exists>r'. call_times nxt n r = Some (take n (stream_events (rest r)), r') \<and> inv r' \<and>
    (length (stream_events (rest r)) < n \<longrightarrow> rest r' = snd (split_records (rest r)) \<and>
       stats r' = stream_stats (stats r) (rest r) \<and> failed r' = (failed r \<or> stream_corrupt (rest r)))"
  using assms
proof (induction n arbitrary: r)
  case (Suc n)
  obtain e r1 where nxt: "nxt r = Some (e, r1)"
    using next_returns [OF Suc.prems] by blast
  show ?case
  proof (cases e)
    case None
    with nxt next_NoneD [OF Suc.prems, of r1] have D: "inv r1"
      "rest r1 = snd (split_records (rest r))" "stream_events (rest r) = []"
      "stats r1 = stream_stats (stats r) (rest r)" "failed r1 = (failed r \<or> stream_corrupt (rest r))"
      by auto
    show ?thesis
    proof (cases n)
      case 0
      with None nxt D show ?thesis by simp
    next
      case (Suc m)
      with Suc.IH [OF D(1)] None nxt D show ?thesis by auto
    qed
  next
    case (Some ev)
    with nxt next_SomeD [OF Suc.prems, of ev r1] have D: "inv r1"
      "stream_events (rest r) = ev # stream_events (rest r1)"
      "stream_stats (stats r) (rest r) = stream_stats (stats r1) (rest r1)"
      "stream_corrupt (rest r) = stream_corrupt (rest r1)" "failed r1 = failed r"
      "snd (split_records (rest r1)) = snd (split_records (rest r))"
      by auto
    with Suc.IH [OF D(1)] Some nxt show ?thesis by auto
  qed
qed simp

lemma call_times_end:
  assumes "inv r" and "length (stream_events (rest r)) < n"
  shows "\<exists>r' r''. call_times nxt n r = Some (stream_events (rest r), r') \<and> nxt r' = Some (None, r'') \<and>
    stats r' = stream_stats (stats r) (rest r) \<and> failed r' = (failed r \<or> stream_corrupt (rest r))"
proof -
  obtain r' where r': "call_times nxt n r = Some (stream_events (rest r), r')" "inv r'"
    "rest r' = snd (split_records (rest r))" "stats r' = stream_stats (stats r) (rest r)"
    "failed r' = (failed r \<or> stream_corrupt (rest r))"
    using call_times_events [OF assms(1), of n] assms(2) by auto
  obtain e r'' where nxt: "nxt r' = Some (e, r'')"
    using next_returns [OF r'(2)] by blast
  have "e = None"
  proof (cases e)
    case (Some ev)
    with next_SomeD [OF r'(2), of ev r''] nxt r'(3) show ?thesis by simp
  qed
  with r' nxt show ?thesis by blast
qed

text \<open>Calling \<open>next()\<close> often enough reaches the end.\<close>

lemma run_to_end:
  assumes "inv r"
  shows "\<exists>es r1 r2. pulls nxt r es r1 \<and> nxt r1 = Some (None, r2)"
proof -
  have "\<exists>es' r1 r2. pulls nxt r es' r1 \<and> nxt r1 = Some (None, r2)"
    if "pulls nxt r es r0" "inv r0" for es r0
    using that
  proof (induction "length (rest r0)" arbitrary: es r0 rule: less_induct)
    case less
    obtain e r1 where nxt: "nxt r0 = Some (e, r1)"
      using next_returns [OF less.prems(2)] by blast
    show ?case
    proof (cases e)
      case None
      with nxt less.prems show ?thesis by blast
    next
      case (Some ev)
      with nxt have nxt: "nxt r0 = Some (Some ev, r1)" by simp
      note D = next_SomeD [OF less.prems(2) nxt]
      from D have "length (rest r1) < length (rest r0)" "inv r1" by auto
      with less.hyps [OF _ pulls.event [OF less.prems(1) nxt]] show ?thesis by blast
    qed
  qed
  from this [OF pulls.none assms] show ?thesis .
qed

text \<open>After the end nothing more comes, however often \<open>next()\<close> is called.\<close>

lemma pulls_after_end:
  assumes inv: "inv r" and ended: "nxt r = Some (None, r1)" and run: "pulls nxt r1 es r2"
  shows "es = [] \<and> (\<exists>r0. inv r0 \<and> nxt r0 = Some (None, r2)) \<and> rest r2 = rest r1 \<and>
    stats r2 = stats r1 \<and> failed r2 = failed r1 \<and> version r2 = version r1"
  using run
proof (induction rule: pulls.induct)
  case none
  show ?case using inv ended by auto
next
  case (event es r' ev r'')
  then obtain r0 where r0: "inv r0" "nxt r0 = Some (None, r')" by blast
  with next_None_sticky [OF r0] event.hyps(2) show ?case by auto
next
  case (ended es r' r'')
  then obtain r0 where r0: "inv r0" "nxt r0 = Some (None, r')" by blast
  moreover have "inv r'" using next_NoneD [OF r0] by blast
  ultimately show ?case
    using next_None_sticky [OF r0] ended by auto
qed

end

end
