(* ===== verification/Prologue.thy ===== *)
theory Prologue
  imports Routing Errors
begin

text \<open>
  What the prologue of a DBN stream is, for both readers: the 8-byte header (magic, version,
  length of the metadata), the version check, and the metadata. \<open>parse_prologue\<close> is the
  specification of the two \<open>skip_prologue_\<close> functions of
  \<open>core/include/trading_sim/dbn_reader.hpp\<close>.
\<close>

definition metadata_length :: "bytes \<Rightarrow> nat" where
  "metadata_length f = unat (load_field 4 4 f :: u32)"

text \<open>The header, the version check and the metadata: what is left is the records.\<close>

definition parse_prologue :: "bytes \<Rightarrow> dbn_error + bytes" where
  "parse_prologue f =
     (if length f < 8 then Inl TruncatedHeader
      else if take 3 f \<noteq> [chr CHR ''D'', chr CHR ''B'', chr CHR ''N''] then Inl BadMagic
      else if f ! 3 \<noteq> kSupportedDbnVersion then Inl (UnsupportedVersion (f ! 3))
      else if length f < 8 + metadata_length f then Inl TruncatedMetadata
      else Inr (drop (8 + metadata_length f) f))"

lemma load_field_take: "load_field 4 4 (take 8 f) = load_field 4 4 f"
  by (simp add: load_field_def drop_take)

lemma take3_magic:
  assumes "8 \<le> length f"
  shows "take 3 f = [a, b, c] \<longleftrightarrow> f ! 0 = a \<and> f ! 1 = b \<and> f ! 2 = c"
  using assms by (auto simp: numeral_eq_Suc Suc_le_length_iff)

end
