(* ===== verification/StreamReader.thy ===== *)
theory StreamReader
  imports Assembler ByteSource Contract Prologue
begin

text \<open>
  \<open>DbnReader\<close> of \<open>core/include/trading_sim/dbn_reader.hpp\<close>: the prologue, the pull loop over
  {byte source, record assembler, scratch buffer}, and the constructor over a file. The byte
  source is the argument \<open>rd\<close> of the operations that read, so that the facts are proved once for
  every source with the \<open>byte_source\<close> contract; the program's reader is the instance
  \<open>rd = file_read\<close>.
\<close>

subsection \<open>State\<close>

record 's dbn_reader =
  rd_source :: 's
  rd_assembler :: assembler
  rd_scratch :: bytes
  rd_version :: u8
  rd_failed :: bool
  rd_stats :: ingest_stats

text \<open>The accessors.\<close>

definition dbn_version :: "'s dbn_reader \<Rightarrow> u8" where
  [simp]: "dbn_version r = rd_version r"

definition dbn_failed :: "'s dbn_reader \<Rightarrow> bool" where
  [simp]: "dbn_failed r = rd_failed r"

definition dbn_stats :: "'s dbn_reader \<Rightarrow> ingest_stats" where
  [simp]: "dbn_stats r = rd_stats r"

subsection \<open>The prologue\<close>

text \<open>
  The loop of \<open>skip_prologue_\<close> that reads past the metadata, one scratch buffer at a time:
  \<open>None\<close> is also the value where the loop never ends.
\<close>

partial_function (option) skip_metadata ::
    "('s \<Rightarrow> bytes \<Rightarrow> nat \<times> bytes \<times> 's) \<Rightarrow> 's \<Rightarrow> bytes \<Rightarrow> nat \<Rightarrow>
      (dbn_error + bytes \<times> 's) option" where
  "skip_metadata rd s scratch remaining =
     (if remaining > 0 then do {
        let want = min remaining (length scratch);
        dst \<leftarrow> span_first want scratch;
        (got, dst, s) \<leftarrow> read_fully rd s dst 0;
        let scratch = dst @ drop want scratch;
        if got \<noteq> want then Some (Inl TruncatedMetadata)
        else skip_metadata rd s scratch (remaining - got)
      }
      else Some (Inr (scratch, s)))"

declare skip_metadata.simps [code]

definition skip_prologue ::
    "('s \<Rightarrow> bytes \<Rightarrow> nat \<times> bytes \<times> 's) \<Rightarrow> 's dbn_reader \<Rightarrow> (dbn_error + 's dbn_reader) option" where
  "skip_prologue rd r = do {
     (got, header, s) \<leftarrow> read_fully rd (rd_source r) (replicate 8 0) 0;
     let r = r\<lparr>rd_source := s\<rparr>;
     if got \<noteq> 8 then Some (Inl TruncatedHeader)
     else if header ! 0 \<noteq> chr CHR ''D'' \<or> header ! 1 \<noteq> chr CHR ''B'' \<or> header ! 2 \<noteq> chr CHR ''N''
     then Some (Inl BadMagic)
     else do {
       let r = r\<lparr>rd_version := header ! 3\<rparr>;
       if rd_version r \<noteq> kSupportedDbnVersion then Some (Inl (UnsupportedVersion (rd_version r)))
       else do {
         let metadata_len = (load_field 4 4 header :: u32);
         res \<leftarrow> skip_metadata rd (rd_source r) (rd_scratch r) (unat metadata_len);
         Some (case res of
             Inl err \<Rightarrow> Inl err
           | Inr (scratch, s) \<Rightarrow> Inr (r\<lparr>rd_scratch := scratch, rd_source := s\<rparr>))
       }
     }
   }"

subsection \<open>next()\<close>

partial_function (option) dbn_next ::
    "('s \<Rightarrow> bytes \<Rightarrow> nat \<times> bytes \<times> 's) \<Rightarrow> 's dbn_reader \<Rightarrow> (event option \<times> 's dbn_reader) option"
  where
  "dbn_next rd r = do {
     (p, a) \<leftarrow> asm_next (rd_assembler r);
     let r = r\<lparr>rd_assembler := a\<rparr>;
     case pl_status p of
       PullRecord \<Rightarrow> do {
         rcd \<leftarrow> view_bytes (rd_assembler r) (pl_record p);
         routed \<leftarrow> route_record rcd;
         let (e, st) = tally (rd_stats r) routed;
         let r = r\<lparr>rd_stats := st\<rparr>;
         if e \<noteq> None then Some (e, r) else dbn_next rd r
       }
     | PullNeedMore \<Rightarrow> do {
         let (n, scratch, s) = rd (rd_source r) (rd_scratch r);
         let r = r\<lparr>rd_source := s, rd_scratch := scratch\<rparr>;
         if n = 0 then Some (None, r)
         else do {
           chunk \<leftarrow> span_first n (rd_scratch r);
           a \<leftarrow> asm_append (rd_assembler r) chunk;
           dbn_next rd (r\<lparr>rd_assembler := a\<rparr>)
         }
       }
     | PullCorrupt \<Rightarrow> Some (None, r\<lparr>rd_failed := True\<rparr>)
   }"

declare dbn_next.simps [code]

subsection \<open>Construction over a file\<close>

definition dbn_init :: "'s \<Rightarrow> nat \<Rightarrow> 's dbn_reader" where
  "dbn_init s chunk_size =
     \<lparr> rd_source = s, rd_assembler = asm_empty, rd_scratch = replicate chunk_size 0,
       rd_version = 0, rd_failed = False, rd_stats = stats_zero \<rparr>"

text \<open>The members are initialized in order: the file is open when \<open>scratch_\<close> gets its size.\<close>

definition dbn_open ::
    "file_system \<Rightarrow> path \<Rightarrow> nat \<Rightarrow> (dbn_error + file_byte_source dbn_reader) option" where
  "dbn_open fs p chunk_size =
     (case file_source_open fs p of
        Inl err \<Rightarrow> Some (Inl err)
      | Inr src \<Rightarrow>
          if vector_max_size < chunk_size then Some (Inl VectorTooLong)
          else skip_prologue file_read (dbn_init src chunk_size))"

definition default_chunk_size :: nat where
  "default_chunk_size = 64 * 1024"

subsection \<open>Correctness over any byte source\<close>

text \<open>
  The invariant of a running reader. The last part bounds the memory the assembler holds: what
  \<open>append\<close> keeps is less than one record, so the buffer never outgrows one record and one chunk.
\<close>

definition stream_inv :: "'s dbn_reader \<Rightarrow> bool" where
  "stream_inv r \<longleftrightarrow> asm_wf (rd_assembler r) \<and> rd_scratch r \<noteq> [] \<and>
     length (as_buf (rd_assembler r)) \<le> 1019 + length (rd_scratch r)"

text \<open>The bytes that are still to be framed, for a source with the bytes \<open>pending s\<close> to deliver.\<close>

definition stream_rest :: "('s \<Rightarrow> bytes) \<Rightarrow> 's dbn_reader \<Rightarrow> bytes" where
  "stream_rest pending r = unread (rd_assembler r) @ pending (rd_source r)"

text \<open>The reader behind the record in front, and after a read of \<open>n\<close> bytes into the scratch buffer.\<close>

definition past_record :: "bytes \<Rightarrow> 's dbn_reader \<Rightarrow> 's dbn_reader" where
  "past_record rcd r = r\<lparr>rd_assembler := advance (length rcd) (rd_assembler r),
     rd_stats := snd (tally (rd_stats r) (routing rcd))\<rparr>"

definition refilled :: "nat \<Rightarrow> bytes \<Rightarrow> 's \<Rightarrow> 's dbn_reader \<Rightarrow> 's dbn_reader" where
  "refilled n scratch s r = r\<lparr>rd_source := s, rd_scratch := scratch,
     rd_assembler := \<lparr> as_buf = unread (rd_assembler r) @ take n scratch, as_read_pos = 0 \<rparr>\<rparr>"

lemma past_record_sel [simp]:
  "rd_source (past_record rcd r) = rd_source r" "rd_scratch (past_record rcd r) = rd_scratch r"
  "rd_version (past_record rcd r) = rd_version r" "rd_failed (past_record rcd r) = rd_failed r"
  "rd_stats (past_record rcd r) = snd (tally (rd_stats r) (routing rcd))"
  by (simp_all add: past_record_def)

lemma refilled_sel [simp]:
  "rd_source (refilled n scratch s r) = s" "rd_scratch (refilled n scratch s r) = scratch"
  "rd_version (refilled n scratch s r) = rd_version r" "rd_failed (refilled n scratch s r) = rd_failed r"
  "rd_stats (refilled n scratch s r) = rd_stats r"
  "unread (rd_assembler (refilled n scratch s r)) = unread (rd_assembler r) @ take n scratch"
  by (simp_all add: refilled_def)

text \<open>What either step keeps and brings nearer to the end.\<close>

lemma past_record_step:
  assumes "stream_inv r" and "unread (rd_assembler r) = rcd @ rest" and "whole_record rcd"
  shows "stream_inv (past_record rcd r)"
    and "stream_rest pending r = rcd @ stream_rest pending (past_record rcd r)"
    and "length (unread (rd_assembler (past_record rcd r))) < length (unread (rd_assembler r))"
proof -
  have "asm_wf (rd_assembler r)"
    using assms(1) by (simp add: stream_inv_def)
  note adv = advance_whole [OF this assms(2)]
  show "stream_inv (past_record rcd r)"
    using assms(1) adv by (simp add: stream_inv_def past_record_def) (simp add: advance_def)
  show "stream_rest pending r = rcd @ stream_rest pending (past_record rcd r)"
    using assms(2) adv by (simp add: stream_rest_def past_record_def)
  show "length (unread (rd_assembler (past_record rcd r))) < length (unread (rd_assembler r))"
    using assms(2) adv whole_record_bounds(1) [OF assms(3)] by (auto simp: past_record_def)
qed

text \<open>One turn of the loop, by what is in front of the reader.\<close>

lemma dbn_next_corrupt:
  "stream_inv r \<Longrightarrow> corrupt_tail (unread (rd_assembler r)) \<Longrightarrow>
    dbn_next rd r = Some (None, r\<lparr>rd_failed := True\<rparr>)"
  by (simp add: dbn_next.simps [of rd r] asm_next_corrupt stream_inv_def)

lemma dbn_next_whole:
  assumes "stream_inv r" and "unread (rd_assembler r) = rcd @ rest" and "whole_record rcd"
  shows "dbn_next rd r = (case event_of (routing rcd) of
      Some ev \<Rightarrow> Some (Some ev, past_record rcd r) | None \<Rightarrow> dbn_next rd (past_record rcd r))"
proof -
  have wf: "asm_wf (rd_assembler r)"
    using assms(1) by (simp add: stream_inv_def)
  show ?thesis
    using advance_whole [OF wf assms(2)] assms(3)
    by (simp add: dbn_next.simps [of rd r] asm_next_whole [OF wf assms(2,3)] route_whole_record
        past_record_def Let_def case_prod_beta split: option.splits)
qed

lemma dbn_next_short:
  assumes "stream_inv r" and "short_tail (unread (rd_assembler r))"
    and "rd (rd_source r) (rd_scratch r) = (n, scratch, s)" and "n \<le> length scratch"
  shows "dbn_next rd r = (if n = 0 then Some (None, r\<lparr>rd_source := s, rd_scratch := scratch\<rparr>)
      else dbn_next rd (refilled n scratch s r))"
proof -
  have wf: "asm_wf (rd_assembler r)"
    using assms(1) by (simp add: stream_inv_def)
  then show ?thesis
    using assms(3,4) by (simp add: dbn_next.simps [of rd r] asm_next_short [OF wf assms(2)]
        refilled_def span_simps asm_append_eq)
qed

context byte_source begin

lemma skip_metadata_skips:
  assumes "scratch \<noteq> []"
  shows "if remaining \<le> length (pending s) then
      \<exists>scratch' s'. skip_metadata rd s scratch remaining = Some (Inr (scratch', s')) \<and>
        length scratch' = length scratch \<and> pending s' = drop remaining (pending s)
    else skip_metadata rd s scratch remaining = Some (Inl TruncatedMetadata)"
  using assms
proof (induction remaining arbitrary: s scratch rule: less_induct)
  case (less remaining)
  let ?want = "min remaining (length scratch)"
  show ?case
  proof (cases "remaining = 0")
    case True
    then show ?thesis by (simp add: skip_metadata.simps)
  next
    case False
    obtain dst s' where read: "read_fully rd s (take ?want scratch) 0 =
        Some (min ?want (length (pending s)), dst, s')"
      and len: "length dst = ?want" and pend: "pending s' = drop ?want (pending s)"
      using read_fully_gets [of 0 "take ?want scratch" s] by auto
    show ?thesis
    proof (cases "?want \<le> length (pending s)")
      case True
      have step: "skip_metadata rd s scratch remaining =
          skip_metadata rd s' (dst @ drop ?want scratch) (remaining - ?want)"
        using False True read
        by (subst skip_metadata.simps) (simp add: span_simps min_absorb1 Let_def)
      have "remaining - ?want < remaining" "dst @ drop ?want scratch \<noteq> []"
        using False less.prems len by (auto simp: min_def)
      from less.IH [OF this, of s'] show ?thesis
        using True len unfolding step pend by (auto split: if_splits)
    next
      case small: False
      then have "\<not> remaining \<le> length (pending s)" by auto
      moreover have "min ?want (length (pending s)) \<noteq> ?want"
        using small by linarith
      then have "skip_metadata rd s scratch remaining = Some (Inl TruncatedMetadata)"
        using False read by (subst skip_metadata.simps) (simp add: span_simps Let_def)
      ultimately show ?thesis by simp
    qed
  qed
qed

text \<open>The header is read whole or not at all; what the metadata loop then does decides the rest.\<close>

lemma skip_prologue_header:
  obtains s where "pending s = drop 8 (pending (rd_source r))"
    and "skip_prologue rd r =
      (let f = pending (rd_source r) in
       if length f < 8 then Some (Inl TruncatedHeader)
       else if take 3 f \<noteq> [chr CHR ''D'', chr CHR ''B'', chr CHR ''N''] then Some (Inl BadMagic)
       else if f ! 3 \<noteq> kSupportedDbnVersion then Some (Inl (UnsupportedVersion (f ! 3)))
       else do {
         res \<leftarrow> skip_metadata rd s (rd_scratch r) (metadata_length f);
         Some (case res of
             Inl err \<Rightarrow> Inl err
           | Inr (scratch, s) \<Rightarrow> Inr (r\<lparr>rd_version := kSupportedDbnVersion,
               rd_scratch := scratch, rd_source := s\<rparr>))
       })"
proof -
  let ?f = "pending (rd_source r)"
  obtain header s where read: "read_fully rd (rd_source r) (replicate 8 0) 0 =
      Some (min 8 (length ?f), header, s)"
    and header: "take (min 8 (length ?f)) header = take 8 ?f" "length header = 8"
    and pend: "pending s = drop 8 ?f"
    using read_fully_gets [of 0 "replicate 8 0" "rd_source r"] by auto
  show ?thesis
  proof (cases "length ?f < 8")
    case True
    then show ?thesis
      using read pend by (intro that [of s]) (simp_all add: skip_prologue_def)
  next
    case False
    then have h: "header = take 8 ?f"
      using header by simp
    have nth: "header ! 0 = ?f ! 0" "header ! Suc 0 = ?f ! Suc 0" "header ! 2 = ?f ! 2"
        "header ! 3 = ?f ! 3"
      unfolding h by simp_all
    have meta: "unat (load_field 4 4 header :: u32) = metadata_length ?f"
      unfolding h load_field_take metadata_length_def ..
    have "8 \<le> length ?f"
      using False by simp
    note magic = take3_magic [OF this]
    show ?thesis
      using read False pend
      by (cases "?f ! 3 = kSupportedDbnVersion"; intro that [of s])
        (auto simp: skip_prologue_def magic nth meta Let_def intro!: Option.bind_cong
          split: sum.splits)
  qed
qed

lemma skip_prologue_parses:
  assumes "rd_scratch r \<noteq> []"
  shows "case parse_prologue (pending (rd_source r)) of
      Inl err \<Rightarrow> skip_prologue rd r = Some (Inl err)
    | Inr body \<Rightarrow> \<exists>scratch s. skip_prologue rd r = Some (Inr (r\<lparr>rd_version := kSupportedDbnVersion,
          rd_scratch := scratch, rd_source := s\<rparr>)) \<and>
        length scratch = length (rd_scratch r) \<and> pending s = body"
proof -
  let ?f = "pending (rd_source r)"
  obtain s where s: "pending s = drop 8 ?f" and eq: "skip_prologue rd r =
      (let f = ?f in
       if length f < 8 then Some (Inl TruncatedHeader)
       else if take 3 f \<noteq> [chr CHR ''D'', chr CHR ''B'', chr CHR ''N''] then Some (Inl BadMagic)
       else if f ! 3 \<noteq> kSupportedDbnVersion then Some (Inl (UnsupportedVersion (f ! 3)))
       else do {
         res \<leftarrow> skip_metadata rd s (rd_scratch r) (metadata_length f);
         Some (case res of
             Inl err \<Rightarrow> Inl err
           | Inr (scratch, s) \<Rightarrow> Inr (r\<lparr>rd_version := kSupportedDbnVersion,
               rd_scratch := scratch, rd_source := s\<rparr>))
       })"
    by (rule skip_prologue_header)
  show ?thesis
    using skip_metadata_skips [OF assms, of "metadata_length ?f" s]
    unfolding eq parse_prologue_def s
    by (auto simp: Let_def le_diff_conv2 add.commute split: if_splits) blast
qed

text \<open>With an empty scratch buffer the metadata loop asks for no bytes and never ends.\<close>

lemma skip_metadata_no_scratch:
  assumes "0 < remaining"
  shows "skip_metadata rd s [] remaining = None"
proof (rule ccontr)
  assume "skip_metadata rd s [] remaining \<noteq> None"
  then obtain y where run: "skip_metadata rd s [] remaining = Some y" by auto
  have "([] :: bytes) = [] \<and> 0 < remaining \<longrightarrow> False"
  proof (rule skip_metadata.raw_induct [where P = "\<lambda>rd s scratch remaining y.
      scratch = [] \<and> 0 < remaining \<longrightarrow> False", OF _ run], goal_cases)
    case (1 sm rd s scratch remaining y)
    have "read_fully rd s [] 0 = Some (0, [], s)"
      by (simp add: read_fully.simps)
    then have "scratch = [] \<Longrightarrow> 0 < remaining \<Longrightarrow> sm rd s [] remaining = Some y"
      using 1(2) by (simp add: span_first_def)
    with 1(1) [of rd s "[]" remaining y] show ?case by blast
  qed
  with assms show False by simp
qed

lemma skip_prologue_no_scratch:
  assumes "rd_scratch r = []"
  defines "f \<equiv> pending (rd_source r)"
  shows "skip_prologue rd r = None \<longleftrightarrow>
      8 \<le> length f \<and> take 3 f = [chr CHR ''D'', chr CHR ''B'', chr CHR ''N''] \<and>
      f ! 3 = kSupportedDbnVersion \<and> 0 < metadata_length f"
    and "parse_prologue f = Inr body \<Longrightarrow> metadata_length f = 0 \<Longrightarrow>
      \<exists>s. skip_prologue rd r = Some (Inr (r\<lparr>rd_version := kSupportedDbnVersion, rd_source := s\<rparr>)) \<and>
        pending s = body"
proof -
  obtain s where s: "pending s = drop 8 f" and eq: "skip_prologue rd r =
      (let f = f in
       if length f < 8 then Some (Inl TruncatedHeader)
       else if take 3 f \<noteq> [chr CHR ''D'', chr CHR ''B'', chr CHR ''N''] then Some (Inl BadMagic)
       else if f ! 3 \<noteq> kSupportedDbnVersion then Some (Inl (UnsupportedVersion (f ! 3)))
       else do {
         res \<leftarrow> skip_metadata rd s (rd_scratch r) (metadata_length f);
         Some (case res of
             Inl err \<Rightarrow> Inl err
           | Inr (scratch, s) \<Rightarrow> Inr (r\<lparr>rd_version := kSupportedDbnVersion,
               rd_scratch := scratch, rd_source := s\<rparr>))
       })"
    unfolding f_def by (rule skip_prologue_header)
  have zero: "skip_metadata rd s [] 0 = Some (Inr ([], s))"
    by (simp add: skip_metadata.simps)
  show "skip_prologue rd r = None \<longleftrightarrow>
      8 \<le> length f \<and> take 3 f = [chr CHR ''D'', chr CHR ''B'', chr CHR ''N''] \<and>
      f ! 3 = kSupportedDbnVersion \<and> 0 < metadata_length f"
    unfolding eq assms(1)
    by (cases "metadata_length f = 0") (auto simp: skip_metadata_no_scratch zero Let_def)
  have "r\<lparr>rd_scratch := []\<rparr> = r"
    using assms(1) by simp
  then show "\<exists>s. skip_prologue rd r = Some (Inr (r\<lparr>rd_version := kSupportedDbnVersion, rd_source := s\<rparr>)) \<and>
        pending s = body"
    if "parse_prologue f = Inr body" and "metadata_length f = 0"
    using that s zero unfolding eq assms(1)
    by (cases r) (auto simp: parse_prologue_def Let_def split: if_splits)
qed

lemma refilled_step:
  assumes "stream_inv r" and "short_tail (unread (rd_assembler r))"
    and "rd (rd_source r) (rd_scratch r) = (n, scratch, s)"
  shows "n \<le> length scratch" and "length scratch = length (rd_scratch r)"
    and "stream_inv (refilled n scratch s r)"
    and "stream_rest pending (refilled n scratch s r) = stream_rest pending r"
    and "length (pending (rd_source r)) = n + length (pending s)"
    and "n = 0 \<Longrightarrow> pending (rd_source r) = [] \<and> pending s = []"
proof -
  note law = read_count [OF assms(3)] read_data [OF assms(3)]
  show "n \<le> length scratch" and "length scratch = length (rd_scratch r)"
    using law by simp_all
  show "stream_inv (refilled n scratch s r)"
    using assms(1) law short_tail_less [OF assms(2)] by (auto simp: stream_inv_def refilled_def)
  show "stream_rest pending (refilled n scratch s r) = stream_rest pending r"
    using law by (simp add: stream_rest_def)
  show "length (pending (rd_source r)) = n + length (pending s)"
    using law(1) arg_cong [OF law(2), where f = length] by simp
  show "pending (rd_source r) = [] \<and> pending s = []" if "n = 0"
    using that law read_zero [of "rd_source r" "rd_scratch r" scratch s] assms(1,3)
    by (auto simp: stream_inv_def)
qed

text \<open>The bytes a turn of the loop works off: twice those in the source, once those in the assembler.\<close>

definition ahead :: "'s dbn_reader \<Rightarrow> nat" where
  "ahead r = length (unread (rd_assembler r)) + 2 * length (pending (rd_source r))"

lemma ahead_past_record:
  "stream_inv r \<Longrightarrow> unread (rd_assembler r) = rcd @ rest \<Longrightarrow> whole_record rcd \<Longrightarrow>
    ahead (past_record rcd r) < ahead r"
  using past_record_step(3) [of r rcd rest] by (simp add: ahead_def)

lemma ahead_refilled:
  assumes "stream_inv r" and "short_tail (unread (rd_assembler r))"
    and "rd (rd_source r) (rd_scratch r) = (n, scratch, s)" and "n \<noteq> 0"
  shows "ahead (refilled n scratch s r) < ahead r"
  using refilled_step(1,5) [OF assms(1-3)] assms(4) by (simp add: ahead_def)

lemma dbn_next_pull:
  assumes "stream_inv r" and "pull (stream_rest pending r) (rd_stats r) = (e, bs, st, c)"
  shows "\<exists>r'. dbn_next rd r = Some (e, r') \<and> stream_inv r' \<and> stream_rest pending r' = bs \<and>
    rd_stats r' = st \<and> rd_failed r' = (rd_failed r \<or> c) \<and> rd_version r' = rd_version r \<and>
    length (rd_scratch r') = length (rd_scratch r)"
  using assms
proof (induction "ahead r" arbitrary: r rule: less_induct)
  case less
  note inv = less.prems(1)
  show ?case
  proof (cases "unread (rd_assembler r)" rule: front_cases)
    case corrupt
    with dbn_next_corrupt [OF inv] less.prems show ?thesis
      by (auto simp: stream_inv_def stream_rest_def corrupt_tail_append)
  next
    case (whole rcd rest)
    note P = past_record_step(1) [OF inv whole] past_record_step(2) [OF inv whole, of pending]
      dbn_next_whole [OF inv whole, of rd]
    show ?thesis
    proof (cases "event_of (routing rcd)")
      case (Some ev)
      with P less.prems(2) whole(2) show ?thesis by (auto simp: pull_whole)
    next
      case None
      with P(2) whole(2) less.prems(2)
      have "pull (stream_rest pending (past_record rcd r)) (rd_stats (past_record rcd r)) = (e, bs, st, c)"
        by (simp add: pull_whole)
      from less.hyps [OF ahead_past_record [OF inv whole] P(1) this] None P(3) show ?thesis by simp
    qed
  next
    case short
    obtain n scratch s where rd: "rd (rd_source r) (rd_scratch r) = (n, scratch, s)"
      by (cases "rd (rd_source r) (rd_scratch r)") auto
    note R = refilled_step [OF inv short rd]
    note step = dbn_next_short [where rd = rd, OF inv short rd R(1)]
    show ?thesis
    proof (cases "n = 0")
      case True
      with step R(2,6) short less.prems show ?thesis
        by (auto simp: stream_inv_def stream_rest_def)
    next
      case False
      from less.hyps [OF ahead_refilled [OF inv short rd False] R(3)] less.prems(2) R(2,4) False step
      show ?thesis by simp
    qed
  qed
qed

end

context byte_source begin

lemma sr_reader: "pull_reader (dbn_next rd) (stream_rest pending) rd_stats rd_failed rd_version stream_inv"
  by unfold_locales (use dbn_next_pull in blast)

end

sublocale byte_source \<subseteq> sr: pull_reader "dbn_next rd" "stream_rest pending" rd_stats rd_failed
    rd_version stream_inv
  by (rule sr_reader)

subsection \<open>The reader over a file\<close>

text \<open>
  With a scratch buffer that is not empty, the constructor returns, throws what the prologue of
  the file says, and otherwise leaves a reader that has exactly the records still to read.
\<close>

lemma dbn_open_too_long:
  "vector_max_size < chunk_size \<Longrightarrow> dbn_open fs p chunk_size =
    Some (Inl (case fs p of None \<Rightarrow> CannotOpen p | Some f \<Rightarrow> VectorTooLong))"
  by (simp add: dbn_open_def file_source_open_eq split: option.split)

lemma dbn_open_InrD: "dbn_open fs p chunk_size = Some (Inr r) \<Longrightarrow> chunk_size \<le> vector_max_size"
  using dbn_open_too_long [of chunk_size fs p] by fastforce

lemma dbn_open_parses:
  assumes "0 < chunk_size" and "chunk_size \<le> vector_max_size"
  shows "case fs p of
      None \<Rightarrow> dbn_open fs p chunk_size = Some (Inl (CannotOpen p))
    | Some f \<Rightarrow>
        (case parse_prologue f of
           Inl err \<Rightarrow> dbn_open fs p chunk_size = Some (Inl err)
         | Inr body \<Rightarrow> \<exists>r. dbn_open fs p chunk_size = Some (Inr r) \<and> stream_inv r \<and>
             stream_rest file_pending r = body \<and> rd_stats r = stats_zero \<and> \<not> rd_failed r \<and>
             rd_version r = kSupportedDbnVersion \<and> length (rd_scratch r) = chunk_size)"
proof (cases "fs p")
  case None
  then show ?thesis by (simp add: dbn_open_def file_source_open_eq)
next
  case (Some f)
  let ?src = "\<lparr> fb_file = ifstream_fresh f \<rparr>"
  have "rd_scratch (dbn_init ?src chunk_size) \<noteq> []"
    using assms by (simp add: dbn_init_def)
  from fsrc.skip_prologue_parses [OF this] show ?thesis
    using Some assms
    by (auto simp: dbn_open_def file_source_open_eq dbn_init_def stream_inv_def stream_rest_def
        split: sum.splits)
qed

end
