(* ===== verification/Feed.thy ===== *)
theory Feed
  imports Prologue
begin

text \<open>
  The writer's side: what a DBN file with given events is, and how the readers' specification
  (\<open>parse_prologue\<close>, \<open>stream_events\<close>, \<open>stream_stats\<close>) reads it back. Also the closed form of
  the counters and the fact that they cannot wrap.
\<close>

subsection \<open>A DBN file\<close>

text \<open>The header the tests write (\<open>append_prologue\<close>), with its metadata.\<close>

definition prologue_bytes :: "bytes \<Rightarrow> bytes" where
  "prologue_bytes meta =
     [chr CHR ''D'', chr CHR ''B'', chr CHR ''N'', kSupportedDbnVersion] @
     le_bytes 4 (word_of_nat (length meta) :: u32) @ meta"

text \<open>A feed interleaves events, each with its envelope fields, and records of other types.\<close>

datatype feed_item = Quote u16 u32 u8 i32 event | Other bytes

fun item_bytes :: "feed_item \<Rightarrow> bytes" where
  "item_bytes (Quote publisher instrument channel delta e) =
     store_wire (wire_of_event publisher instrument channel delta e)"
| "item_bytes (Other r) = r"

fun item_ok :: "feed_item \<Rightarrow> bool" where
  "item_ok (Quote publisher instrument channel delta e) = True"
| "item_ok (Other r) = (whole_record r \<and> r ! 1 \<noteq> kMboRtype)"

fun item_event :: "feed_item \<Rightarrow> event option" where
  "item_event (Quote publisher instrument channel delta e) = Some e"
| "item_event (Other r) = None"

definition feed_bytes :: "feed_item list \<Rightarrow> bytes" where
  "feed_bytes items = concat (map item_bytes items)"

subsection \<open>Reading it back\<close>

lemma metadata_length_prologue:
  assumes "length meta < 2 ^ 32"
  shows "metadata_length (prologue_bytes meta @ body) = length meta"
proof -
  have "drop 4 (prologue_bytes meta @ body) =
      le_bytes 4 (word_of_nat (length meta) :: u32) @ meta @ body"
    by (simp add: prologue_bytes_def)
  then have "(load_field 4 4 (prologue_bytes meta @ body) :: u32) = word_of_nat (length meta)"
    unfolding load_field_def by (simp add: le_word_le_bytes)
  then show ?thesis
    using assms by (simp add: metadata_length_def unat_of_nat)
qed

lemma parse_prologue_bytes:
  assumes "length meta < 2 ^ 32"
  shows "parse_prologue (prologue_bytes meta @ body) = Inr body"
proof -
  let ?f = "prologue_bytes meta @ body"
  have take3: "take 3 ?f = [chr CHR ''D'', chr CHR ''B'', chr CHR ''N'']"
    and nth3: "?f ! 3 = kSupportedDbnVersion"
    and len: "length ?f = 8 + length meta + length body"
    and drop8: "drop 8 ?f = meta @ body"
    by (simp_all add: prologue_bytes_def)
  have "drop (8 + n) ?f = drop n (meta @ body)" for n
    by (metis drop8 drop_drop add.commute)
  then show ?thesis
    using len by (simp only: parse_prologue_def take3 nth3 metadata_length_prologue [OF assms]) simp
qed

lemma whole_record_store_wire: "w_length w = 14 \<Longrightarrow> whole_record (store_wire w)"
  by (simp add: whole_record_def hd_store_wire)

lemma whole_item: "item_ok it \<Longrightarrow> whole_record (item_bytes it)"
  by (cases it) (simp_all add: whole_record_store_wire wire_of_event_def)

lemma routing_other: "whole_record r \<Longrightarrow> r ! 1 \<noteq> kMboRtype \<Longrightarrow> routing r = SkipNonMbo"
  using whole_record_bounds(1) [of r]
  by (simp add: routing_def route_record_def span_simps)

lemma routing_item:
  "item_ok it \<Longrightarrow> routing (item_bytes it) = (case item_event it of Some e \<Rightarrow> Emit e | None \<Rightarrow> SkipNonMbo)"
  by (cases it)
     (simp_all add: routing_other, simp add: routing_def route_store_wire wire_of_event_def
      to_event_wire_of_event [unfolded wire_of_event_def] kMboRtype_def)

lemma split_feed:
  assumes "list_all item_ok items" and "short_tail tail \<or> corrupt_tail tail"
  shows "split_records (feed_bytes items @ tail) = (map item_bytes items, tail)"
  unfolding feed_bytes_def
  using assms by (intro split_records_unique) (auto simp: list_all_iff whole_item)

lemma stream_events_feed:
  assumes "list_all item_ok items" and "short_tail tail \<or> corrupt_tail tail"
  shows "stream_events (feed_bytes items @ tail) = List.map_filter item_event items"
proof -
  have "List.map_filter (event_of \<circ> routing) (map item_bytes items) = List.map_filter item_event items"
    using assms(1)
    by (induction items) (auto simp: routing_item event_of_def split: option.splits)
  then show ?thesis
    by (simp add: stream_events_def split_feed [OF assms])
qed

lemma stream_corrupt_feed:
  assumes "list_all item_ok items" and "short_tail tail \<or> corrupt_tail tail"
  shows "stream_corrupt (feed_bytes items @ tail) = corrupt_tail tail"
  by (simp add: stream_corrupt_def split_feed [OF assms])

subsection \<open>The counters in closed form\<close>

definition count_routed :: "(routed \<Rightarrow> bool) \<Rightarrow> bytes \<Rightarrow> nat" where
  "count_routed P bs = length (filter (P \<circ> routing) (fst (split_records bs)))"

definition is_emit :: "routed \<Rightarrow> bool" where
  "is_emit r \<longleftrightarrow> event_of r \<noteq> None"

lemma tally_fields [simp]:
  "st_records (snd (tally st r)) = st_records st + 1"
  "st_events (snd (tally st r)) = st_events st + of_bool (is_emit r)"
  "st_skipped_non_mbo (snd (tally st r)) = st_skipped_non_mbo st + of_bool (r = SkipNonMbo)"
  "st_skipped_malformed (snd (tally st r)) = st_skipped_malformed st + of_bool (r = SkipMalformed)"
  by (cases r; simp add: is_emit_def event_of_def; fail)+

lemma fold_tally_fields:
  fixes rs :: "bytes list" and st :: ingest_stats
  defines "st' \<equiv> fold (\<lambda>r s. snd (tally s (routing r))) rs st"
  shows "st_records st' = st_records st + of_nat (length rs)"
    and "st_events st' = st_events st + of_nat (length (filter (is_emit \<circ> routing) rs))"
    and "st_skipped_non_mbo st' = st_skipped_non_mbo st
         + of_nat (length (filter ((\<lambda>r. r = SkipNonMbo) \<circ> routing) rs))"
    and "st_skipped_malformed st' = st_skipped_malformed st
         + of_nat (length (filter ((\<lambda>r. r = SkipMalformed) \<circ> routing) rs))"
  unfolding st'_def by (induction rs arbitrary: st; simp)+

lemma stream_stats_counts:
  "stream_stats stats_zero bs =
     \<lparr> st_records = of_nat (length (fst (split_records bs))),
       st_events = of_nat (count_routed is_emit bs),
       st_skipped_non_mbo = of_nat (count_routed (\<lambda>r. r = SkipNonMbo) bs),
       st_skipped_malformed = of_nat (count_routed (\<lambda>r. r = SkipMalformed) bs) \<rparr>"
  unfolding stream_stats_def count_routed_def
  by (rule ingest_stats.equality) (simp_all add: fold_tally_fields stats_zero_def)

lemma count_routed_split:
  "length (fst (split_records bs)) =
     count_routed is_emit bs + count_routed (\<lambda>r. r = SkipNonMbo) bs
       + count_routed (\<lambda>r. r = SkipMalformed) bs"
proof -
  have "length (filter (is_emit \<circ> routing) rs)
      + length (filter ((\<lambda>r. r = SkipNonMbo) \<circ> routing) rs)
      + length (filter ((\<lambda>r. r = SkipMalformed) \<circ> routing) rs) = length rs" for rs :: "bytes list"
  proof (induction rs)
    case (Cons r rs)
    then show ?case
      by (cases "routing r") (simp_all add: is_emit_def event_of_def)
  qed simp
  then show ?thesis unfolding count_routed_def by (rule sym)
qed

lemma length_map_filter: "length (List.map_filter f xs) = length (filter (\<lambda>x. f x \<noteq> None) xs)"
  by (induction xs) (auto split: option.splits)

lemma length_stream_events: "length (stream_events bs) = count_routed is_emit bs"
  by (simp add: stream_events_def count_routed_def length_map_filter is_emit_def comp_def)

text \<open>A record has at least 4 bytes, so the counters of a stream below \<open>2 ^ 66\<close> bytes are exact.\<close>

lemma unat_count:
  assumes "n \<le> length (fst (split_records bs))" and "length bs < 2 ^ 66"
  shows "unat (of_nat n :: u64) = n"
proof -
  have "4 * n < 2 ^ 66"
    using assms split_records_length [of bs] by linarith
  then have "n < 2 ^ LENGTH(64)" by simp
  then show ?thesis by (simp add: unat_of_nat)
qed

end
