(* ===== verification/Ingest.thy ===== *)
theory Ingest
  imports Contract Feed "HOL-Library.Sublist"
begin

text \<open>
  What ingest of a whole file is, independently of a reader: \<open>ingest\<close> is the function of the file's
  bytes that both readers are shown to compute. The lemmas say what it means for the data: which
  events come out, how the counters add up, what a file that is cut or still growing gives.
\<close>

record ingest_result =
  ig_events :: "event list"
  ig_stats :: ingest_stats
  ig_failed :: bool
  ig_version :: u8

definition ingest :: "bytes \<Rightarrow> dbn_error + ingest_result" where
  "ingest f =
     (case parse_prologue f of
        Inl err \<Rightarrow> Inl err
      | Inr body \<Rightarrow> Inr
          \<lparr> ig_events = stream_events body, ig_stats = stream_stats stats_zero body,
            ig_failed = stream_corrupt body, ig_version = kSupportedDbnVersion \<rparr>)"

subsection \<open>Streams that continue\<close>

lemma split_records_append:
  "split_records (a @ b) =
     (fst (split_records a) @ fst (split_records (snd (split_records a) @ b)),
      snd (split_records (snd (split_records a) @ b)))"
proof (induction a rule: stream_induct)
  case (whole r rest)
  then show ?case by (simp add: split_records_whole)
qed simp_all

lemma stream_events_append:
  "stream_events (a @ b) = stream_events a @ stream_events (snd (split_records a) @ b)"
  unfolding stream_events_def
  by (subst split_records_append) (simp add: map_filter_def)

lemma stream_stats_append:
  "stream_stats st (a @ b) = stream_stats (stream_stats st a) (snd (split_records a) @ b)"
  unfolding stream_stats_def
  by (subst split_records_append) simp

lemma stream_corrupt_append:
  "stream_corrupt a \<Longrightarrow> stream_corrupt (a @ b) \<and> stream_events (a @ b) = stream_events a"
proof -
  assume corrupt: "stream_corrupt a"
  then have "corrupt_tail (snd (split_records a) @ b)"
    by (simp add: stream_corrupt_def corrupt_tail_append)
  then show ?thesis
    unfolding stream_events_append [of a b]
    by (subst stream_corrupt_def, subst split_records_append) simp
qed

subsection \<open>A sample file\<close>

definition sample_items :: "feed_item list" where
  "sample_items = [Other [1, 23, 0, 0], Quote 2 7 1 50 sample_event, Other [2, 21, 1, 1, 1, 1, 1, 1]]"

definition sample_file :: bytes where
  "sample_file = prologue_bytes [] @ feed_bytes sample_items"

lemma sample_items_ok: "list_all item_ok sample_items"
  by (simp add: sample_items_def whole_record_def kMboRtype_def)

lemma parse_sample: "parse_prologue sample_file = Inr (feed_bytes sample_items)"
  unfolding sample_file_def by (rule parse_prologue_bytes) simp

lemma sample_events: "stream_events (feed_bytes sample_items) = [sample_event]"
  using stream_events_feed [OF sample_items_ok, of "[]"]
  by (simp add: short_tail_def) (simp add: sample_items_def)

subsection \<open>What the result says of the file\<close>

lemma ingest_event_origin:
  assumes "ingest f = Inr res" and "e \<in> set (ig_events res)"
  shows "\<exists>body w. parse_prologue f = Inr body \<and> store_wire w \<in> set (fst (split_records body)) \<and>
    w_rtype w = kMboRtype \<and> w_action w = action_byte (ev_action e) \<and>
    w_side w = side_byte (ev_side e) \<and> to_event w = Some (Inr e)"
proof -
  obtain body where body: "parse_prologue f = Inr body" "e \<in> set (stream_events body)"
    using assms by (auto simp: ingest_def split: sum.splits)
  then obtain r where r: "r \<in> set (fst (split_records body))" "event_of (routing r) = Some e"
    by (auto simp: stream_events_def map_filter_def)
  then have "routing r = Emit e"
    by (cases "routing r") (auto simp: event_of_def)
  from routing_EmitD [OF this] obtain w where w: "r = store_wire w" "w_rtype w = kMboRtype"
    "to_event w = Some (Inr e)" by blast
  have "w_action w = action_byte (ev_action e) \<and> w_side w = side_byte (ev_side e)"
    using w(3) by (cases w rule: to_event_cases) auto
  with body(1) r(1) w show ?thesis by blast
qed

lemma ingest_counters:
  assumes "parse_prologue f = Inr body" and "ingest f = Inr res" and "length f < 2 ^ 66"
  shows "unat (st_records (ig_stats res)) = length (fst (split_records body))"
    and "unat (st_events (ig_stats res)) = length (ig_events res)"
    and "unat (st_skipped_non_mbo (ig_stats res)) = count_routed (\<lambda>r. r = SkipNonMbo) body"
    and "unat (st_skipped_malformed (ig_stats res)) = count_routed (\<lambda>r. r = SkipMalformed) body"
    and "unat (st_records (ig_stats res)) = unat (st_events (ig_stats res)) +
      unat (st_skipped_non_mbo (ig_stats res)) + unat (st_skipped_malformed (ig_stats res))"
proof -
  have "length body \<le> length f"
    using assms(1) by (auto simp: parse_prologue_def split: if_splits)
  with assms(3) have len: "length body < 2 ^ 66" by linarith
  have res: "ig_stats res = stream_stats stats_zero body" "ig_events res = stream_events body"
    using assms(1,2) by (auto simp: ingest_def)
  have n: "unat (of_nat (length (fst (split_records body))) :: u64) = length (fst (split_records body))"
    by (rule unat_count [OF le_refl len])
  have c: "unat (of_nat (count_routed P body) :: u64) = count_routed P body" for P
    by (rule unat_count [OF _ len]) (simp add: count_routed_def)
  note unfolded = res stream_stats_counts length_stream_events ingest_stats.simps n c
  show "unat (st_records (ig_stats res)) = length (fst (split_records body))"
    and "unat (st_events (ig_stats res)) = length (ig_events res)"
    and "unat (st_skipped_non_mbo (ig_stats res)) = count_routed (\<lambda>r. r = SkipNonMbo) body"
    and "unat (st_skipped_malformed (ig_stats res)) = count_routed (\<lambda>r. r = SkipMalformed) body"
    and "unat (st_records (ig_stats res)) = unat (st_events (ig_stats res)) +
      unat (st_skipped_non_mbo (ig_stats res)) + unat (st_skipped_malformed (ig_stats res))"
    unfolding unfolded by (rule refl count_routed_split)+
qed

lemma ingest_feed:
  assumes "length meta < 2 ^ 32" and "list_all item_ok items"
    and "short_tail tail \<or> corrupt_tail tail"
  shows "\<exists>res. ingest (prologue_bytes meta @ feed_bytes items @ tail) = Inr res \<and>
    ig_events res = List.map_filter item_event items \<and>
    ig_failed res = corrupt_tail tail \<and> ig_version res = 1"
  using stream_events_feed [OF assms(2,3)] stream_corrupt_feed [OF assms(2,3)]
  by (simp add: ingest_def parse_prologue_bytes [OF assms(1)] kSupportedDbnVersion_def)

text \<open>A file that goes on is a longer stream behind the same prologue.\<close>

lemma parse_prologue_append:
  assumes "parse_prologue f = Inr body"
  shows "parse_prologue (f @ g) = Inr (body @ g)"
proof -
  have len: "8 \<le> length f" "8 + metadata_length f \<le> length f"
    using assms by (auto simp: parse_prologue_def split: if_splits)
  have "metadata_length (f @ g) = metadata_length f"
    using len by (simp add: metadata_length_def load_field_def)
  with assms len show ?thesis
    by (auto simp: parse_prologue_def nth_append split: if_splits)
qed

lemma ingest_append:
  assumes "ingest f = Inr res"
  shows "\<exists>res'. ingest (f @ g) = Inr res' \<and> prefix (ig_events res) (ig_events res') \<and>
    (ig_failed res \<longrightarrow> ig_failed res' \<and> ig_events res' = ig_events res)"
proof -
  obtain body where body: "parse_prologue f = Inr body"
    using assms by (auto simp: ingest_def split: sum.splits)
  with assms show ?thesis
    using stream_events_append [of body g] stream_corrupt_append [of body g]
    by (auto simp: ingest_def parse_prologue_append [OF body])
qed

end
