(* ===== verification/StreamIngest.thy ===== *)
theory StreamIngest
  imports StreamReader Ingest
begin

text \<open>
  What a consumer of \<open>DbnReader\<close> sees: construction, the pull loop to the end, and the accessors.
  The theorems hold for every file and every chunk size, the sizes the code gets wrong included.
\<close>

definition stream_ingest :: "file_system \<Rightarrow> path \<Rightarrow> nat \<Rightarrow> (dbn_error + ingest_result) option" where
  "stream_ingest fs p chunk_size = do {
     res \<leftarrow> dbn_open fs p chunk_size;
     case res of
       Inl err \<Rightarrow> Some (Inl err)
     | Inr r \<Rightarrow> do {
         (es, r) \<leftarrow> drain (dbn_next file_read) r;
         Some (Inr \<lparr> ig_events = es, ig_stats = dbn_stats r, ig_failed = dbn_failed r,
                    ig_version = dbn_version r \<rparr>)
       }
   }"

lemma stream_ingest_ingest:
  assumes "0 < chunk_size" and "chunk_size \<le> vector_max_size"
  shows "stream_ingest fs p chunk_size =
    Some (case fs p of None \<Rightarrow> Inl (CannotOpen p) | Some f \<Rightarrow> ingest f)"
proof (cases "fs p")
  case None
  then show ?thesis
    using dbn_open_parses [OF assms, of fs p] by (simp add: stream_ingest_def)
next
  case (Some f)
  show ?thesis
  proof (cases "parse_prologue f")
    case (Inl err)
    then show ?thesis
      using dbn_open_parses [OF assms, of fs p] Some by (simp add: stream_ingest_def ingest_def)
  next
    case (Inr body)
    then obtain r where r: "dbn_open fs p chunk_size = Some (Inr r)" "stream_inv r"
      "stream_rest file_pending r = body" "rd_stats r = stats_zero" "\<not> rd_failed r"
      "rd_version r = kSupportedDbnVersion"
      using dbn_open_parses [OF assms, of fs p] Some by auto
    with fsrc.sr.drain_ingest [OF r(2)] Some Inr show ?thesis
      by (auto simp: stream_ingest_def ingest_def)
  qed
qed

lemma stream_ingest_too_long:
  "vector_max_size < chunk_size \<Longrightarrow> stream_ingest fs p chunk_size =
    Some (Inl (case fs p of None \<Rightarrow> CannotOpen p | Some f \<Rightarrow> VectorTooLong))"
  by (simp add: stream_ingest_def dbn_open_too_long)

lemma stream_ingest_InrD:
  "stream_ingest fs p chunk_size = Some (Inr res) \<Longrightarrow> chunk_size \<le> vector_max_size"
  using stream_ingest_too_long [of chunk_size fs p] by fastforce

text \<open>The reader of a valid file.\<close>

lemma dbn_open_valid:
  assumes "0 < chunk_size" and "dbn_open fs p chunk_size = Some (Inr r)"
  obtains f body where "fs p = Some f" "parse_prologue f = Inr body" "stream_inv r"
    "stream_rest file_pending r = body" "rd_stats r = stats_zero" "\<not> rd_failed r"
    "rd_version r = kSupportedDbnVersion" "length (rd_scratch r) = chunk_size"
  using dbn_open_parses [OF assms(1) dbn_open_InrD [OF assms(2)], of fs p] assms(2)
  by (cases "fs p"; cases "parse_prologue (the (fs p))") auto

lemma next_scratch:
  assumes "stream_inv r" and "dbn_next file_read r = Some (e, r')"
  shows "length (rd_scratch r') = length (rd_scratch r)"
proof -
  obtain e1 bs st c where "pull (stream_rest file_pending r) (rd_stats r) = (e1, bs, st, c)"
    by (cases "pull (stream_rest file_pending r) (rd_stats r)") auto
  from fsrc.dbn_next_pull [OF assms(1) this] assms(2) show ?thesis by auto
qed

lemma pulls_scratch:
  assumes "pulls (dbn_next file_read) r0 es r" and "stream_inv r0"
  shows "stream_inv r \<and> length (rd_scratch r) = length (rd_scratch r0)"
  using assms(1)
proof (induction rule: pulls.induct)
  case none
  with assms(2) show ?case by simp
next
  case (event es r ev r')
  then have inv: "stream_inv r" by blast
  show ?case
    using event.IH next_scratch [OF inv event.hyps(2)] fsrc.sr.next_SomeD [OF inv event.hyps(2)] by simp
next
  case (ended es r r')
  then have inv: "stream_inv r" by blast
  show ?case
    using ended.IH next_scratch [OF inv ended.hyps(2)] fsrc.sr.next_NoneD [OF inv ended.hyps(2)] by simp
qed

lemma open_sample:
  obtains r where "dbn_open (\<lambda>_. Some sample_file) p 5 = Some (Inr r)"
  using dbn_open_parses [of 5 "\<lambda>_. Some sample_file" p] parse_sample by auto

text \<open>The reader with no scratch space.\<close>

lemma dbn_open_zero_metadata:
  assumes "fs p = Some f" and "parse_prologue f = Inr body" and "0 < metadata_length f"
  shows "dbn_open fs p 0 = None"
proof -
  let ?src = "\<lparr> fb_file = ifstream_fresh f \<rparr>"
  have "rd_scratch (dbn_init ?src 0) = []" and "file_pending (rd_source (dbn_init ?src 0)) = f"
    by (simp_all add: dbn_init_def)
  with fsrc.skip_prologue_no_scratch(1) [of "dbn_init ?src 0"] assms show ?thesis
    by (auto simp: dbn_open_def file_source_open_eq parse_prologue_def split: if_splits)
qed

lemma dbn_open_zero_empty:
  assumes "fs p = Some f" and "parse_prologue f = Inr body" and "metadata_length f = 0"
  shows "\<exists>r r'. dbn_open fs p 0 = Some (Inr r) \<and> dbn_next file_read r = Some (None, r') \<and>
    rd_stats r' = stats_zero \<and> \<not> rd_failed r' \<and> rd_version r' = kSupportedDbnVersion"
proof -
  let ?src = "\<lparr> fb_file = ifstream_fresh f \<rparr>"
  have "rd_scratch (dbn_init ?src 0) = []" and "file_pending (rd_source (dbn_init ?src 0)) = f"
    by (simp_all add: dbn_init_def)
  note S = fsrc.skip_prologue_no_scratch(2) [OF this(1), unfolded this(2)]
  obtain s where s: "dbn_open fs p 0 =
      Some (Inr ((dbn_init ?src 0)\<lparr>rd_version := kSupportedDbnVersion, rd_source := s\<rparr>))"
    using S assms by (auto simp: dbn_open_def file_source_open_eq)
  let ?r = "(dbn_init ?src 0)\<lparr>rd_version := kSupportedDbnVersion, rd_source := s\<rparr>"
  have "asm_next asm_empty = Some (\<lparr> pl_status = PullNeedMore,
      pl_record = \<lparr> vw_off = 0, vw_len = 0 \<rparr> \<rparr>, asm_empty)"
    by (rule asm_next_short) (simp_all add: short_tail_def)
  moreover obtain s' where "file_read s [] = (0, [], s')"
    by (cases "file_read s []") (auto simp: file_read_def istream_read_def Let_def split: if_splits)
  ultimately have "dbn_next file_read ?r = Some (None, ?r\<lparr>rd_source := s'\<rparr>)"
    by (subst dbn_next.simps) (simp add: dbn_init_def)
  with s show ?thesis
    by (simp add: dbn_init_def)
qed

subsection \<open>Properties\<close>

text \<open>(C2) Streaming ingest is a function of the bytes of the file: for every chunk size but 0 the
  reader's constructor and loop end without undefined behaviour, throw exactly the error the prologue
  calls for, and otherwise give the events, counters, failure flag and version of \<open>ingest\<close>. In
  particular the chunk size is not observable, except that one beyond the largest size of a vector is
  refused with that vector's exception, once the file is open.\<close>

theorem stream_ingest_spec:
  assumes "0 < chunk_size"
  shows "stream_ingest fs p chunk_size =
    Some (case fs p of
        None \<Rightarrow> Inl (CannotOpen p)
      | Some f \<Rightarrow> if vector_max_size < chunk_size then Inl VectorTooLong else ingest f)"
proof (cases "vector_max_size < chunk_size")
  case True
  then show ?thesis
    by (simp add: stream_ingest_too_long split: option.split)
next
  case False
  then show ?thesis
    using stream_ingest_ingest [OF assms] by (simp split: option.split)
qed

theorem stream_ingest_spec_witness:
  "\<exists>res. stream_ingest (\<lambda>_. Some sample_file) ''f'' 5 = Some (Inr res) \<and>
    ig_events res = [sample_event]"
  using stream_ingest_spec [of 5 "\<lambda>_. Some sample_file" "''f''"]
  by (simp add: ingest_def parse_sample sample_events)

text \<open>(C5) At every moment of every use of the reader, after any number of calls of \<open>next()\<close>: the
  next call returns; the events so far are a prefix, in order, of the events of the file; every record
  framed so far is counted under one reason and every event returned is counted; the failure flag is
  only set when the file is corrupt and all its events are out; and the assembler holds less than one
  record and one chunk of bytes, whatever the size of the file.\<close>

theorem stream_reader_always:
  assumes "0 < chunk_size" and "dbn_open fs p chunk_size = Some (Inr r0)"
    and "pulls (dbn_next file_read) r0 es r"
  shows "(\<exists>e r'. dbn_next file_read r = Some (e, r')) \<and>
    (\<exists>f body. fs p = Some f \<and> parse_prologue f = Inr body \<and> prefix es (stream_events body) \<and>
       (rd_failed r \<longrightarrow> stream_corrupt body \<and> es = stream_events body)) \<and>
    stats_balanced (rd_stats r) \<and> st_events (rd_stats r) = of_nat (length es) \<and>
    length (as_buf (rd_assembler r)) \<le> 1019 + chunk_size"
proof -
  obtain f body where f: "fs p = Some f" "parse_prologue f = Inr body" "stream_inv r0"
    "stream_rest file_pending r0 = body" "rd_stats r0 = stats_zero" "\<not> rd_failed r0"
    "length (rd_scratch r0) = chunk_size"
    using dbn_open_valid [OF assms(1,2)] by metis
  note P = fsrc.sr.pulls_prefix [OF assms(3) f(3) f(6) f(5)]
  from P have inv: "stream_inv r" and body: "stream_events body = es @ stream_events (stream_rest file_pending r)"
    using f(4) by auto
  have "prefix es (stream_events body)"
    unfolding body by simp
  moreover have "rd_failed r \<longrightarrow> stream_corrupt body \<and> es = stream_events body"
    using P body f(4) by auto
  moreover have "length (as_buf (rd_assembler r)) \<le> 1019 + chunk_size"
    using pulls_scratch [OF assms(3) f(3)] f(7) by (simp add: stream_inv_def)
  moreover have "\<exists>e r'. dbn_next file_read r = Some (e, r')"
    using fsrc.sr.next_returns [OF inv] by blast
  ultimately show ?thesis using P f(1,2) by blast
qed

theorem stream_reader_always_witness:
  "\<exists>r e r'. dbn_open (\<lambda>_. Some sample_file) ''f'' 5 = Some (Inr r) \<and>
    dbn_next file_read r = Some (e, r')"
proof -
  obtain r where r: "dbn_open (\<lambda>_. Some sample_file) ''f'' 5 = Some (Inr r)"
    by (rule open_sample)
  from stream_reader_always [OF _ r pulls.none] r show ?thesis by auto
qed

text \<open>(C21) The end is final: once \<open>next()\<close> has returned nothing, at a clean end or at a corrupt frame,
  every later call returns nothing again and changes neither the counters nor the failure flag.\<close>

theorem stream_end_is_final:
  assumes "0 < chunk_size" and "dbn_open fs p chunk_size = Some (Inr r0)"
    and "pulls (dbn_next file_read) r0 es r" and "dbn_next file_read r = Some (None, r1)"
    and "pulls (dbn_next file_read) r1 es' r2"
  shows "es' = [] \<and> rd_stats r2 = rd_stats r1 \<and> rd_failed r2 = rd_failed r1 \<and>
    (\<exists>f body. fs p = Some f \<and> parse_prologue f = Inr body \<and> es = stream_events body \<and>
       rd_failed r2 = stream_corrupt body \<and> rd_stats r2 = stream_stats stats_zero body)"
proof -
  obtain f body where f: "fs p = Some f" "parse_prologue f = Inr body" "stream_inv r0"
    "stream_rest file_pending r0 = body" "rd_stats r0 = stats_zero" "\<not> rd_failed r0"
    using dbn_open_valid [OF assms(1,2)] by metis
  note P = fsrc.sr.pulls_prefix [OF assms(3) f(3) f(6) f(5)]
  then have inv: "stream_inv r" by blast
  note after = fsrc.sr.pulls_after_end [OF inv assms(4,5)]
  note last_call = fsrc.sr.next_NoneD [OF inv assms(4)]
  from P after last_call f show ?thesis by auto
qed

theorem stream_end_is_final_witness:
  "\<exists>r es r1 r2. dbn_open (\<lambda>_. Some sample_file) ''f'' 5 = Some (Inr r) \<and>
    pulls (dbn_next file_read) r es r1 \<and> dbn_next file_read r1 = Some (None, r2) \<and>
    es = [sample_event]"
proof -
  obtain r where r: "dbn_open (\<lambda>_. Some sample_file) ''f'' 5 = Some (Inr r)"
    by (rule open_sample)
  then have inv: "stream_inv r"
    by (rule dbn_open_valid [rotated]) simp_all
  obtain es r1 r2 where run: "pulls (dbn_next file_read) r es r1" "dbn_next file_read r1 = Some (None, r2)"
    using fsrc.sr.run_to_end [OF inv] by blast
  from stream_end_is_final [OF _ r run pulls.none] have "es = [sample_event]"
    by (auto simp: parse_sample sample_events)
  with r run show ?thesis by blast
qed

text \<open>(C15) A device that fails is taken for the end of the file. When the device fails at any moment of
  any use of the reader, after \<open>k\<close> more bytes, the consumer's loop still ends without undefined
  behaviour, and all it sees (the events in total, the counters and the failure flag) is what a file
  that ends there would give: in particular \<open>failed()\<close> does not report the failure.\<close>

theorem device_failure_looks_like_end:
  assumes "0 < chunk_size" and "dbn_open fs p chunk_size = Some (Inr r0)"
    and "pulls (dbn_next file_read) r0 es r" and "\<not> dbn_failed r"
  shows "\<exists>f body m more_es r'. fs p = Some f \<and> parse_prologue f = Inr body \<and>
    m = length body - (length (file_pending (rd_source r)) - k) \<and>
    drain (dbn_next file_read) (r\<lparr>rd_source := device_fails k (rd_source r)\<rparr>) = Some (more_es, r') \<and>
    es @ more_es = stream_events (take m body) \<and>
    dbn_stats r' = stream_stats stats_zero (take m body) \<and>
    dbn_failed r' = stream_corrupt (take m body)"
proof -
  obtain f body where f: "fs p = Some f" "parse_prologue f = Inr body" "stream_inv r0"
    "stream_rest file_pending r0 = body" "rd_stats r0 = stats_zero"
    using dbn_open_valid [OF assms(1,2)] by metis
  obtain framed where inv: "stream_inv r" and body: "body = framed @ stream_rest file_pending r"
    and framed: "\<And>x. stream_events (framed @ x) = es @ stream_events x"
      "\<And>x. stream_stats stats_zero (framed @ x) = stream_stats (rd_stats r) x"
      "\<And>x. stream_corrupt (framed @ x) = stream_corrupt x"
    using fsrc.sr.pulls_frames [OF assms(3) f(3)] unfolding f(4,5) by blast
  let ?r = "r\<lparr>rd_source := device_fails k (rd_source r)\<rparr>"
  let ?m = "length body - (length (file_pending (rd_source r)) - k)"
  have inv': "stream_inv ?r"
    using inv by (simp add: stream_inv_def)
  obtain r' where r': "drain (dbn_next file_read) ?r = Some (stream_events (stream_rest file_pending ?r), r')"
    "rd_stats r' = stream_stats (rd_stats ?r) (stream_rest file_pending ?r)"
    "rd_failed r' = (rd_failed ?r \<or> stream_corrupt (stream_rest file_pending ?r))"
    using fsrc.sr.drain_ingest [OF inv'] by blast
  have "take (length xs - (length xs - k)) xs = take k xs" for xs :: bytes
    by (cases "k \<le> length xs") simp_all
  then have "take ?m body = framed @ stream_rest file_pending ?r"
    unfolding body by (simp add: stream_rest_def)
  with r' framed f(1,2) assms(4) show ?thesis
    by simp
qed

theorem device_failure_looks_like_end_witness:
  "\<exists>r es r'. dbn_open (\<lambda>_. Some sample_file) ''f'' 5 = Some (Inr r) \<and>
    drain (dbn_next file_read) (r\<lparr>rd_source := device_fails 0 (rd_source r)\<rparr>) = Some (es, r')"
proof -
  obtain r where r: "dbn_open (\<lambda>_. Some sample_file) ''f'' 5 = Some (Inr r)"
    by (rule open_sample)
  then have "\<not> dbn_failed r"
    using dbn_open_valid [of 5 _ _ r] by (metis dbn_failed_def zero_less_numeral)
  with device_failure_looks_like_end [OF _ r pulls.none] r show ?thesis by fastforce
qed

text \<open>(C33) A chunk size of 0, which the constructor accepts, breaks the reader: on a valid file with
  metadata the constructor never returns, and on one without metadata the reader reports a clean end
  at once, with no event, no record counted and no failure, whatever records the file holds.\<close>

theorem zero_chunk_size:
  assumes "fs p = Some f" and "parse_prologue f = Inr body"
  shows "if 0 < metadata_length f then dbn_open fs p 0 = None
    else stream_ingest fs p 0 = Some (Inr \<lparr> ig_events = [], ig_stats = stats_zero,
      ig_failed = False, ig_version = kSupportedDbnVersion \<rparr>)"
  using dbn_open_zero_metadata [of fs p f body] dbn_open_zero_empty [of fs p f body] assms
  by (auto simp: stream_ingest_def drain.simps)

theorem zero_chunk_size_witness:
  "\<exists>res. stream_ingest (\<lambda>_. Some sample_file) ''f'' 0 = Some (Inr res) \<and> ig_events res = []"
proof -
  have "metadata_length sample_file = 0"
    by (simp add: sample_file_def metadata_length_prologue)
  with zero_chunk_size [of "\<lambda>_. Some sample_file" "''f''", OF refl parse_sample] show ?thesis
    by simp
qed

text \<open>(C22) The reader relies on nothing but the contract of its byte source: over any source that
  delivers its bytes in order, in pieces of any size, and returns 0 only at the end, the pull loop
  yields exactly the events of what the source still has to deliver, so a compressed file or a socket
  can take the place of the file.\<close>

theorem any_byte_source:
  assumes "byte_source rd pending" and "0 < chunk_size"
  shows "\<exists>r. drain (dbn_next rd) (dbn_init s chunk_size) = Some (stream_events (pending s), r) \<and>
    rd_stats r = stream_stats stats_zero (pending s) \<and> rd_failed r = stream_corrupt (pending s)"
proof -
  have "stream_inv (dbn_init s chunk_size)"
    using assms(2) by (simp add: stream_inv_def dbn_init_def)
  from pull_reader.drain_ingest [OF byte_source.sr_reader [OF assms(1)] this] show ?thesis
    by (auto simp: dbn_init_def stream_rest_def)
qed

text \<open>A source that hands out one byte at a time.\<close>

fun trickle_read :: "bytes \<Rightarrow> bytes \<Rightarrow> nat \<times> bytes \<times> bytes" where
  "trickle_read [] dst = (0, dst, [])"
| "trickle_read (b # bs) [] = (0, [], b # bs)"
| "trickle_read (b # bs) (d # dst) = (1, b # dst, bs)"

lemma trickle_source: "byte_source trickle_read (\<lambda>s. s)"
proof
  show "n \<le> length dst \<and> length dst' = length dst" if "trickle_read s dst = (n, dst', s')"
    for s dst n dst' s'
    using that by (cases "(s, dst)" rule: trickle_read.cases) auto
  show "take n dst' @ s' = s" if "trickle_read s dst = (n, dst', s')" for s dst n dst' s'
    using that by (cases "(s, dst)" rule: trickle_read.cases) auto
  show "s = []" if "trickle_read s dst = (0, dst', s')" "dst \<noteq> []" for s dst dst' s'
    using that by (cases "(s, dst)" rule: trickle_read.cases) auto
qed

theorem any_byte_source_witness:
  "\<exists>r. drain (dbn_next trickle_read) (dbn_init (feed_bytes sample_items) 64) = Some ([sample_event], r)"
  using any_byte_source [OF trickle_source, of 64 "feed_bytes sample_items"]
  by (auto simp: sample_events)

end
