(* ===== verification/MappedFile.thy ===== *)
theory MappedFile
  imports Errors
begin

text \<open>
  \<open>MemoryMappedFile\<close> of \<open>core/include/trading_sim/memory_mapped_file.hpp\<close> and
  \<open>core/src/memory_mapped_file.cpp\<close>, the part that is the same on every platform: the state, the
  accessors and the special members. The constructor and \<open>release_\<close> are compiled per platform; they
  are the record \<open>platform\<close> here, what the rest relies on of them is the locale \<open>mapping_platform\<close>,
  and \<open>PosixFile\<close> and \<open>WinFile\<close> provide it. \<open>life_step\<close> is the life of any number of these objects:
  constructed, moved, assigned and destroyed in any order.
\<close>

subsection \<open>State and accessors\<close>

type_synonym addr = nat
type_synonym handle = nat

record mapped_file =
  mf_data :: "addr option"
  mf_size :: nat

definition mf_empty :: mapped_file where
  "mf_empty = \<lparr> mf_data = None, mf_size = 0 \<rparr>"

definition mf_length :: "mapped_file \<Rightarrow> nat" where
  "mf_length m = mf_size m"

text \<open>\<open>bytes()\<close> read through: reading where nothing is mapped is undefined.\<close>

definition mf_bytes :: "(addr \<Rightarrow> bytes option) \<Rightarrow> mapped_file \<Rightarrow> bytes option" where
  "mf_bytes mem m =
     (case mf_data m of
        None \<Rightarrow> Some []
      | Some a \<Rightarrow> do { region \<leftarrow> mem a; span_first (mf_size m) region })"

subsection \<open>The platform\<close>

text \<open>
  The two members that differ between the platforms, and the memory of the process: \<open>pf_mem os a\<close>
  is what is read at the mapping that starts at \<open>a\<close>, \<open>None\<close> where nothing is mapped.
  \<open>pf_refuses os p err\<close> is an observer too, not code: in the state \<open>os\<close> a system call that opens,
  measures or maps the file \<open>p\<close> fails, and \<open>err\<close> is the exception for that call.
\<close>

record 'os platform =
  pf_open :: "'os \<Rightarrow> path \<Rightarrow> (dbn_error + mapped_file) \<times> 'os"
  pf_release :: "'os \<Rightarrow> mapped_file \<Rightarrow> mapped_file \<times> 'os"
  pf_mem :: "'os \<Rightarrow> addr \<Rightarrow> bytes option"
  pf_refuses :: "'os \<Rightarrow> path \<Rightarrow> dbn_error \<Rightarrow> bool"

subsection \<open>The special members\<close>

text \<open>
  The objects of a program, by identity. The special members are operations on this store, so
  that self-assignment (\<open>this != &other\<close>) is expressible.
\<close>

record 'os world =
  wo_os :: 'os
  wo_objs :: "nat \<Rightarrow> mapped_file option"

definition wo_construct :: "'os platform \<Rightarrow> nat \<Rightarrow> path \<Rightarrow> 'os world \<Rightarrow> 'os world" where
  "wo_construct pf i p w =
     (case pf_open pf (wo_os w) p of
        (Inl err, os) \<Rightarrow> w\<lparr>wo_os := os\<rparr>
      | (Inr m, os) \<Rightarrow> w\<lparr>wo_os := os, wo_objs := (wo_objs w)(i \<mapsto> m)\<rparr>)"

definition wo_move_construct :: "nat \<Rightarrow> nat \<Rightarrow> 'os world \<Rightarrow> 'os world option" where
  "wo_move_construct i j w = do {
     other \<leftarrow> wo_objs w j;
     let this = \<lparr> mf_data = mf_data other, mf_size = mf_size other \<rparr>;
     let other = other\<lparr>mf_data := None, mf_size := 0\<rparr>;
     Some (w\<lparr>wo_objs := (wo_objs w)(j \<mapsto> other, i \<mapsto> this)\<rparr>)
   }"

definition wo_move_assign :: "'os platform \<Rightarrow> nat \<Rightarrow> nat \<Rightarrow> 'os world \<Rightarrow> 'os world option" where
  "wo_move_assign pf i j w = do {
     this \<leftarrow> wo_objs w i;
     other \<leftarrow> wo_objs w j;
     if i \<noteq> j then do {
       let (this, os) = pf_release pf (wo_os w) this;
       let this = this\<lparr>mf_data := mf_data other, mf_size := mf_size other\<rparr>;
       let other = other\<lparr>mf_data := None, mf_size := 0\<rparr>;
       Some (w\<lparr>wo_os := os, wo_objs := (wo_objs w)(i \<mapsto> this, j \<mapsto> other)\<rparr>)
     }
     else Some w
   }"

definition wo_destroy :: "'os platform \<Rightarrow> nat \<Rightarrow> 'os world \<Rightarrow> 'os world option" where
  "wo_destroy pf i w = do {
     this \<leftarrow> wo_objs w i;
     let (this, os) = pf_release pf (wo_os w) this;
     Some (w\<lparr>wo_os := os, wo_objs := (wo_objs w)(i := None)\<rparr>)
   }"

text \<open>One step of a program that uses these objects; a constructor that throws leaves no object.\<close>

inductive life_step :: "'os platform \<Rightarrow> 'os world \<Rightarrow> 'os world \<Rightarrow> bool" for pf where
  construct: "wo_objs w i = None \<Longrightarrow> life_step pf w (wo_construct pf i p w)"
| move_construct: "wo_objs w i = None \<Longrightarrow> wo_move_construct i j w = Some w' \<Longrightarrow> life_step pf w w'"
| move_assign: "wo_move_assign pf i j w = Some w' \<Longrightarrow> life_step pf w w'"
| destroy: "wo_destroy pf i w = Some w' \<Longrightarrow> life_step pf w w'"

inductive life :: "'os platform \<Rightarrow> 'os \<Rightarrow> 'os world \<Rightarrow> bool" for pf os0 where
  start: "life pf os0 \<lparr> wo_os = os0, wo_objs = Map.empty \<rparr>"
| step: "life pf os0 w \<Longrightarrow> life_step pf w w' \<Longrightarrow> life pf os0 w'"

subsection \<open>The contract of a platform\<close>

text \<open>A held address is a live mapping of the size the object states; an empty object has size 0.\<close>

definition holds_live :: "(addr \<Rightarrow> bytes option) \<Rightarrow> mapped_file \<Rightarrow> bool" where
  "holds_live mem m \<longleftrightarrow>
     (case mf_data m of
        None \<Rightarrow> mf_size m = 0
      | Some a \<Rightarrow> (\<exists>c. mem a = Some c \<and> length c = mf_size m))"

text \<open>
  With the open handles (file descriptors on POSIX) and the file system as observers: the
  constructor leaves no handle open; when a system call fails it throws the exception for that call
  and has mapped nothing, and when none fails it makes an object that owns a fresh mapping of the
  whole file, or is empty for an empty file.
  Releasing what an object holds removes exactly that mapping.
\<close>

locale mapping_platform =
  fixes pf :: "'os platform"
    and handles :: "'os \<Rightarrow> handle set"
    and files :: "'os \<Rightarrow> path \<Rightarrow> bytes option"
  assumes open_effect: "pf_open pf os p = (res, os') \<Longrightarrow>
      handles os' = handles os \<and> files os' = files os \<and>
      (case res of
         Inl err \<Rightarrow> pf_refuses pf os p err \<and> err \<in> os_errors p \<and> pf_mem pf os' = pf_mem pf os
       | Inr m \<Rightarrow> (\<nexists>err. pf_refuses pf os p err) \<and>
           (m = mf_empty \<and> files os p = Some [] \<and> pf_mem pf os' = pf_mem pf os \<or>
           (\<exists>a c. m = \<lparr> mf_data = Some a, mf_size = length c \<rparr> \<and> c \<noteq> [] \<and> files os p = Some c \<and>
             pf_mem pf os a = None \<and> pf_mem pf os' = (pf_mem pf os)(a \<mapsto> c))))"
    and release_effect: "holds_live (pf_mem pf os) m \<Longrightarrow> pf_release pf os m = (m', os') \<Longrightarrow>
      m' = mf_empty \<and> handles os' = handles os \<and> files os' = files os \<and>
      pf_mem pf os' =
        (case mf_data m of None \<Rightarrow> pf_mem pf os | Some a \<Rightarrow> (pf_mem pf os)(a := None))"

subsection \<open>Ownership\<close>

definition owns :: "'os world \<Rightarrow> nat \<Rightarrow> addr \<Rightarrow> bool" where
  "owns w i a \<longleftrightarrow> (\<exists>m. wo_objs w i = Some m \<and> mf_data m = Some a)"

text \<open>
  Every object holds a live mapping or none, no two objects hold the same one, nothing but the
  held mappings differs from the memory before the program started, and no descriptor is open.
\<close>

definition life_inv :: "'os platform \<Rightarrow> ('os \<Rightarrow> handle set) \<Rightarrow> 'os \<Rightarrow> 'os world \<Rightarrow> bool" where
  "life_inv pf handles os0 w \<longleftrightarrow>
     handles (wo_os w) = handles os0 \<and>
     (\<forall>i m. wo_objs w i = Some m \<longrightarrow> holds_live (pf_mem pf (wo_os w)) m) \<and>
     (\<forall>i j a. owns w i a \<longrightarrow> owns w j a \<longrightarrow> i = j) \<and>
     (\<forall>a. (\<nexists>i. owns w i a) \<longrightarrow> pf_mem pf (wo_os w) a = pf_mem pf os0 a) \<and>
     (\<forall>i a. owns w i a \<longrightarrow> pf_mem pf os0 a = None)"

lemma life_invI:
  assumes "handles (wo_os w) = handles os0"
    and "\<And>i m. wo_objs w i = Some m \<Longrightarrow> holds_live (pf_mem pf (wo_os w)) m"
    and "\<And>i j a. owns w i a \<Longrightarrow> owns w j a \<Longrightarrow> i = j"
    and "\<And>a. \<nexists>i. owns w i a \<Longrightarrow> pf_mem pf (wo_os w) a = pf_mem pf os0 a"
    and "\<And>i a. owns w i a \<Longrightarrow> pf_mem pf os0 a = None"
  shows "life_inv pf handles os0 w"
  using assms unfolding life_inv_def by blast

lemma life_invD:
  assumes "life_inv pf handles os0 w"
  shows "handles (wo_os w) = handles os0"
    and "wo_objs w i = Some m \<Longrightarrow> holds_live (pf_mem pf (wo_os w)) m"
    and "owns w i a \<Longrightarrow> owns w j a \<Longrightarrow> i = j"
    and "\<nexists>i. owns w i a \<Longrightarrow> pf_mem pf (wo_os w) a = pf_mem pf os0 a"
    and "owns w i a \<Longrightarrow> pf_mem pf os0 a = None"
  using assms unfolding life_inv_def by blast+

lemma owns_live:
  "life_inv pf handles os0 w \<Longrightarrow> owns w i a \<Longrightarrow> \<exists>c. pf_mem pf (wo_os w) a = Some c"
  using life_invD(2) by (fastforce simp: owns_def holds_live_def)

lemma owns_upd:
  "owns (w\<lparr>wo_objs := (wo_objs w)(i := x)\<rparr>) j a \<longleftrightarrow>
     (if j = i then (\<exists>m. x = Some m \<and> mf_data m = Some a) else owns w j a)"
  by (auto simp: owns_def)

lemma mapped_file_eta [simp]:
  "\<lparr> mf_data = mf_data m, mf_size = mf_size m \<rparr> = m"
  "m\<lparr>mf_data := None, mf_size := 0\<rparr> = mf_empty"
  "m\<lparr>mf_data := mf_data n, mf_size := mf_size n\<rparr> = n" for m n :: mapped_file
  by (cases m, cases n, simp add: mf_empty_def)+

context mapping_platform begin

lemma release_inv:
  assumes inv: "life_inv pf handles os0 w"
    and m: "wo_objs w i = Some m" and rel: "pf_release pf (wo_os w) m = (m', os')"
    and x: "x = None \<or> x = Some mf_empty"
  shows "life_inv pf handles os0 (w\<lparr>wo_os := os', wo_objs := (wo_objs w)(i := x)\<rparr>)"
    (is "life_inv _ _ _ ?w")
proof -
  note D = life_invD [OF inv]
  note R = release_effect [OF D(2) [OF m] rel]
  have own: "owns ?w j a \<longleftrightarrow> j \<noteq> i \<and> owns w j a" for j a
    using x by (auto simp: owns_def mf_empty_def)
  have mem: "pf_mem pf os' a = (if owns w i a then None else pf_mem pf (wo_os w) a)" for a
    using R m by (auto simp: owns_def split: option.splits)
  show ?thesis
  proof (rule life_invI)
    show "handles (wo_os ?w) = handles os0"
      using R D(1) by simp
    fix j k a
    show "holds_live (pf_mem pf (wo_os ?w)) n" if "wo_objs ?w j = Some n" for n
    proof (cases "j = i")
      case True
      with that x show ?thesis by (auto simp: holds_live_def mf_empty_def)
    next
      case False
      then have n: "wo_objs w j = Some n" using that by simp
      then have "\<not> owns w i b" if "mf_data n = Some b" for b
        using D(3) [of j b i] False that by (auto simp: owns_def)
      then show ?thesis
        using D(2) [OF n] mem by (auto simp: holds_live_def split: option.splits)
    qed
    show "j = k" if "owns ?w j a" "owns ?w k a"
      using that D(3) own by blast
    show "pf_mem pf (wo_os ?w) a = pf_mem pf os0 a" if none: "\<nexists>j. owns ?w j a"
    proof (cases "owns w i a")
      case True
      then show ?thesis using D(5) [of i a] mem by simp
    next
      case False
      then have "\<nexists>j. owns w j a" using none own by blast
      then show ?thesis using False D(4) mem by simp
    qed
    show "pf_mem pf os0 a = None" if "owns ?w j a"
      using that D(5) own by blast
  qed
qed

text \<open>Moving: the mapping changes its owner, the source is left empty.\<close>

lemma transfer_inv:
  assumes inv: "life_inv pf handles os0 w" and j: "wo_objs w j = Some m" and "i \<noteq> j"
    and free: "wo_objs w i = None \<or> wo_objs w i = Some mf_empty"
  shows "life_inv pf handles os0 (w\<lparr>wo_objs := (wo_objs w)(i \<mapsto> m, j \<mapsto> mf_empty)\<rparr>)"
    (is "life_inv _ _ _ ?w")
proof -
  note D = life_invD [OF inv]
  have own: "owns ?w k a \<longleftrightarrow> (if k = i then owns w j a else k \<noteq> j \<and> owns w k a)" for k a
    using j \<open>i \<noteq> j\<close> by (auto simp: owns_def mf_empty_def)
  have free_i: "\<not> owns w i a" for a
    using free by (auto simp: owns_def mf_empty_def)
  show ?thesis
  proof (rule life_invI)
    show "handles (wo_os ?w) = handles os0" using D(1) by simp
    fix k l a
    show "holds_live (pf_mem pf (wo_os ?w)) n" if "wo_objs ?w k = Some n" for n
      using that D(2) [OF j] D(2) [of k n]
      by (auto simp: holds_live_def mf_empty_def split: if_splits)
    show "k = l" if "owns ?w k a" "owns ?w l a"
      using that D(3) [of k a l] D(3) [of j a l] D(3) [of k a j] by (auto simp: own split: if_splits)
    show "pf_mem pf (wo_os ?w) a = pf_mem pf os0 a" if none: "\<nexists>k. owns ?w k a"
    proof -
      have "\<not> owns w k a" for k
        using none own [of k a] own [of i a] free_i [of a] by (cases "k = j"; cases "k = i") auto
      then show ?thesis using D(4) by simp
    qed
    show "pf_mem pf os0 a = None" if "owns ?w k a"
      using that D(5) by (auto simp: own split: if_splits)
  qed
qed

lemma wo_construct_inv:
  assumes inv: "life_inv pf handles os0 w"
    and i: "wo_objs w i = None"
  shows "life_inv pf handles os0 (wo_construct pf i p w)"
proof -
  obtain res os' where mo: "pf_open pf (wo_os w) p = (res, os')" by fastforce
  note D = life_invD [OF inv]
  note E = open_effect [OF mo]
  have free_i: "\<not> owns w i a" for a
    using i by (simp add: owns_def)
  show ?thesis
  proof (cases res)
    case (Inl err)
    then show ?thesis
      using mo E D by (intro life_invI) (auto simp: wo_construct_def owns_def)
  next
    case (Inr m)
    let ?w = "wo_construct pf i p w"
    have w: "?w = w\<lparr>wo_os := os', wo_objs := (wo_objs w)(i \<mapsto> m)\<rparr>"
      using mo Inr by (simp add: wo_construct_def)
    have own: "owns ?w k a \<longleftrightarrow> (if k = i then mf_data m = Some a else owns w k a)" for k a
      by (auto simp: w owns_def)
    have fresh: "pf_mem pf (wo_os w) a = None" if "mf_data m = Some a" for a
      using E Inr that by (auto simp: mf_empty_def)
    have old: "\<not> owns w k a" if "mf_data m = Some a" for k a
      using fresh [OF that] owns_live [OF inv, of k a] by auto
    have mem: "mf_data m \<noteq> Some a \<Longrightarrow> pf_mem pf os' a = pf_mem pf (wo_os w) a" for a
      using E Inr by (auto simp: mf_empty_def)
    show ?thesis
    proof (rule life_invI)
      show "handles (wo_os ?w) = handles os0" using D(1) E by (simp add: w)
      fix k l a
      show "holds_live (pf_mem pf (wo_os ?w)) n" if n: "wo_objs ?w k = Some n" for n
      proof (cases "k = i")
        case True
        then have "n = m" using n by (simp add: w)
        then show ?thesis using E Inr by (auto simp: holds_live_def mf_empty_def w)
      next
        case False
        then have k: "wo_objs w k = Some n" using n by (simp add: w)
        have "mf_data m \<noteq> Some b" if "mf_data n = Some b" for b
          using old [of b k] k that by (auto simp: owns_def)
        then show ?thesis
          using D(2) [OF k] mem by (auto simp: holds_live_def w split: option.splits)
      qed
      show "k = l" if "owns ?w k a" "owns ?w l a"
        using that D(3) own old by metis
      show "pf_mem pf (wo_os ?w) a = pf_mem pf os0 a" if none: "\<nexists>k. owns ?w k a"
      proof -
        have "mf_data m \<noteq> Some a" "\<nexists>k. owns w k a" using none own free_i by metis+
        then show ?thesis using D(4) mem by (simp add: w)
      qed
      show "pf_mem pf os0 a = None" if "owns ?w k a"
        using that D(4) [of a] D(5) own old fresh by metis
    qed
  qed
qed

lemma life_step_inv:
  assumes inv: "life_inv pf handles os0 w"
    and step: "life_step pf w w'"
  shows "life_inv pf handles os0 w'"
  using step
proof cases
  case (construct i p)
  then show ?thesis using wo_construct_inv [OF inv] by simp
next
  case (move_construct i j)
  then obtain m where "wo_objs w j = Some m"
    "w' = w\<lparr>wo_objs := (wo_objs w)(j \<mapsto> mf_empty, i \<mapsto> m)\<rparr>"
    by (auto simp: wo_move_construct_def bind_eq_Some_conv)
  moreover from this move_construct(1) have "i \<noteq> j" by auto
  ultimately show ?thesis
    using transfer_inv [OF inv, of j m i] move_construct(1) by (simp add: fun_upd_twist)
next
  case (move_assign i j)
  then obtain m n where mn: "wo_objs w i = Some m" "wo_objs w j = Some n"
    by (auto simp: wo_move_assign_def bind_eq_Some_conv)
  show ?thesis
  proof (cases "i = j")
    case True
    with move_assign mn inv show ?thesis by (simp add: wo_move_assign_def)
  next
    case False
    obtain m' os' where rel: "pf_release pf (wo_os w) m = (m', os')" by fastforce
    let ?w = "w\<lparr>wo_os := os', wo_objs := (wo_objs w)(i := Some mf_empty)\<rparr>"
    have "life_inv pf handles os0 ?w"
      using release_inv [OF inv mn(1) rel] by simp
    from transfer_inv [OF this, of j n i]
    have "life_inv pf handles os0 (w\<lparr>wo_os := os', wo_objs := (wo_objs w)(i \<mapsto> n, j \<mapsto> mf_empty)\<rparr>)"
      using mn False by simp
    then show ?thesis
      using move_assign mn False rel by (simp add: wo_move_assign_def)
  qed
next
  case (destroy i)
  then obtain m where m: "wo_objs w i = Some m"
    by (auto simp: wo_destroy_def bind_eq_Some_conv)
  obtain m' os' where rel: "pf_release pf (wo_os w) m = (m', os')" by fastforce
  from release_inv [OF inv m rel, of None] destroy m rel show ?thesis
    by (simp add: wo_destroy_def)
qed

lemma life_inv_life:
  assumes "life pf os0 w"
  shows "life_inv pf handles os0 w"
  using assms
proof (induction rule: life.induct)
  case start
  show ?case by (rule life_invI) (auto simp: owns_def)
next
  case (step w w')
  then show ?case using life_step_inv  by blast
qed

text \<open>An object made by the constructor shows the whole file, and destroying it undoes the constructor.\<close>

lemma open_bytes:
  assumes "pf_open pf os p = (Inr m, os')"
  shows "\<exists>c. files os p = Some c \<and> mf_bytes (pf_mem pf os') m = Some c"
  using open_effect [OF assms] by (auto simp: mf_bytes_def mf_empty_def span_simps)

lemma open_release:
  assumes mo: "pf_open pf os p = (Inr m, os')"
  shows "handles (snd (pf_release pf os' m)) = handles os \<and> files (snd (pf_release pf os' m)) = files os \<and>
    pf_mem pf (snd (pf_release pf os' m)) = pf_mem pf os"
proof -
  note E = open_effect [OF mo]
  obtain m' os2 where rel: "pf_release pf os' m = (m', os2)" by fastforce
  have "holds_live (pf_mem pf os') m"
    using E by (auto simp: holds_live_def mf_empty_def)
  from release_effect [OF this rel] E rel show ?thesis
    by (auto simp: mf_empty_def)
qed

end

end
