(* ===== verification/MmapReader.thy ===== *)
theory MmapReader
  imports MappedFile Contract Prologue
begin

text \<open>
  \<open>MmapDbnReader\<close> of \<open>core/include/trading_sim/dbn_reader.hpp\<close>: the same contract as the
  streaming reader over a whole-file mapping. \<open>mem\<close> is the memory the process sees, through which
  \<open>map_.bytes()\<close> is read, so that reading a mapping that is gone is undefined here too.
\<close>

subsection \<open>The code\<close>

record mmap_reader =
  mm_map :: mapped_file
  mm_cursor :: nat
  mm_version :: u8
  mm_failed :: bool
  mm_stats :: ingest_stats

text \<open>The accessors.\<close>

definition mmap_version :: "mmap_reader \<Rightarrow> u8" where
  [simp]: "mmap_version r = mm_version r"

definition mmap_failed :: "mmap_reader \<Rightarrow> bool" where
  [simp]: "mmap_failed r = mm_failed r"

definition mmap_stats :: "mmap_reader \<Rightarrow> ingest_stats" where
  [simp]: "mmap_stats r = mm_stats r"

definition mmap_init :: "mapped_file \<Rightarrow> mmap_reader" where
  "mmap_init m = \<lparr> mm_map = m, mm_cursor = 0, mm_version = 0, mm_failed = False, mm_stats = stats_zero \<rparr>"

definition mmap_skip_prologue ::
    "(addr \<Rightarrow> bytes option) \<Rightarrow> mmap_reader \<Rightarrow> (dbn_error + mmap_reader) option" where
  "mmap_skip_prologue mem r = do {
     f \<leftarrow> mf_bytes mem (mm_map r);
     if length f < 8 then Some (Inl TruncatedHeader)
     else do {
       f0 \<leftarrow> byte_at f 0;
       f1 \<leftarrow> byte_at f 1;
       f2 \<leftarrow> byte_at f 2;
       if f0 \<noteq> chr CHR ''D'' \<or> f1 \<noteq> chr CHR ''B'' \<or> f2 \<noteq> chr CHR ''N'' then Some (Inl BadMagic)
       else do {
         f3 \<leftarrow> byte_at f 3;
         let r = r\<lparr>mm_version := f3\<rparr>;
         if mm_version r \<noteq> kSupportedDbnVersion
         then Some (Inl (UnsupportedVersion (mm_version r)))
         else do {
           word \<leftarrow> span_slice 4 4 f;
           let metadata_len = (le_word word :: u32);
           let r = r\<lparr>mm_cursor := size_add 8 (unat metadata_len)\<rparr>;
           if mm_cursor r > length f then Some (Inl TruncatedMetadata)
           else Some (Inr r)
         }
       }
     }
   }"

partial_function (option) mmap_next ::
    "(addr \<Rightarrow> bytes option) \<Rightarrow> mmap_reader \<Rightarrow> (event option \<times> mmap_reader) option" where
  "mmap_next mem r = do {
     f \<leftarrow> mf_bytes mem (mm_map r);
     rest \<leftarrow> span_subspan (mm_cursor r) f;
     fr \<leftarrow> frame_one rest;
     case fr_status fr of
       FrameOk \<Rightarrow> do {
         rcd \<leftarrow> span_first (fr_record_size fr) rest;
         let r = r\<lparr>mm_cursor := mm_cursor r + fr_record_size fr\<rparr>;
         routed \<leftarrow> route_record rcd;
         let (e, st) = tally (mm_stats r) routed;
         let r = r\<lparr>mm_stats := st\<rparr>;
         if e \<noteq> None then Some (e, r) else mmap_next mem r
       }
     | FrameNeedMore \<Rightarrow> Some (None, r)
     | FrameCorrupt \<Rightarrow> Some (None, r\<lparr>mm_failed := True\<rparr>)
   }"

declare mmap_next.simps [code]

text \<open>
  The constructor over a path. When the prologue throws, the already constructed mapping is
  destroyed while the exception unwinds.
\<close>

definition mmap_open :: "'os platform \<Rightarrow> 'os \<Rightarrow> path \<Rightarrow> ((dbn_error + mmap_reader) \<times> 'os) option" where
  "mmap_open pf os p =
     (case pf_open pf os p of
        (Inl err, os) \<Rightarrow> Some (Inl err, os)
      | (Inr m, os) \<Rightarrow> do {
          res \<leftarrow> mmap_skip_prologue (pf_mem pf os) (mmap_init m);
          case res of
            Inl err \<Rightarrow> Some (Inl err, snd (pf_release pf os m))
          | Inr r \<Rightarrow> Some (Inr r, os)
        })"

subsection \<open>Correctness\<close>

definition mmap_content :: "(addr \<Rightarrow> bytes option) \<Rightarrow> mmap_reader \<Rightarrow> bytes" where
  "mmap_content mem r = (case mf_bytes mem (mm_map r) of Some f \<Rightarrow> f | None \<Rightarrow> [])"

definition mmap_inv :: "(addr \<Rightarrow> bytes option) \<Rightarrow> mmap_reader \<Rightarrow> bool" where
  "mmap_inv mem r \<longleftrightarrow> mf_bytes mem (mm_map r) \<noteq> None \<and> mm_cursor r \<le> length (mmap_content mem r)"

definition mmap_rest :: "(addr \<Rightarrow> bytes option) \<Rightarrow> mmap_reader \<Rightarrow> bytes" where
  "mmap_rest mem r = drop (mm_cursor r) (mmap_content mem r)"

lemma mmap_skip_prologue_parses:
  assumes "mf_bytes mem (mm_map r) = Some f"
  shows "mmap_skip_prologue mem r = Some
    (case parse_prologue f of
       Inl err \<Rightarrow> Inl err
     | Inr body \<Rightarrow> Inr (r\<lparr>mm_version := kSupportedDbnVersion,
         mm_cursor := 8 + metadata_length f\<rparr>))"
proof (cases "length f < 8")
  case True
  with assms show ?thesis by (simp add: mmap_skip_prologue_def parse_prologue_def)
next
  case False
  then have "8 \<le> length f" by simp
  note magic = take3_magic [OF this]
  have "byte_at f 0 = Some (f ! 0)" "byte_at f 1 = Some (f ! 1)" "byte_at f 2 = Some (f ! 2)"
      "byte_at f 3 = Some (f ! 3)" "span_slice 4 4 f = Some (take 4 (drop 4 f))"
    using \<open>8 \<le> length f\<close> by (auto simp: byte_at_def span_slice_def)
  moreover have "(le_word (take 4 (drop 4 f)) :: u32) = load_field 4 4 f"
    by (simp add: load_field_def)
  ultimately show ?thesis
    using False assms
    by (auto simp: mmap_skip_prologue_def parse_prologue_def magic metadata_length_def Let_def)
qed

lemma mmap_next_pull:
  assumes "mmap_inv mem r" and "pull (mmap_rest mem r) (mm_stats r) = (e, bs, st, c)"
  shows "\<exists>r'. mmap_next mem r = Some (e, r') \<and> mmap_inv mem r' \<and> mmap_rest mem r' = bs \<and>
    mm_stats r' = st \<and> mm_failed r' = (mm_failed r \<or> c) \<and> mm_version r' = mm_version r"
  using assms
proof (induction "length (mmap_rest mem r)" arbitrary: r rule: less_induct)
  case less
  obtain f where f: "mf_bytes mem (mm_map r) = Some f" and cur: "mm_cursor r \<le> length f"
    and cont: "mmap_content mem r = f"
    using less.prems(1) by (auto simp: mmap_inv_def mmap_content_def)
  have sub: "span_subspan (mm_cursor r) f = Some (mmap_rest mem r)"
    using cur by (simp add: mmap_rest_def cont span_simps)
  show ?case
  proof (cases "mmap_rest mem r" rule: front_cases)
    case short
    with less.prems f sub show ?thesis
      by (simp add: mmap_next.simps [of mem r] frame_one_short)
  next
    case corrupt
    with less.prems f sub show ?thesis
      by (auto simp: mmap_next.simps [of mem r] frame_one_corrupt mmap_inv_def mmap_rest_def
          mmap_content_def)
  next
    case (whole rcd tail)
    let ?r = "r\<lparr>mm_cursor := mm_cursor r + length rcd,
      mm_stats := snd (tally (mm_stats r) (routing rcd))\<rparr>"
    have step: "mmap_next mem r = (case event_of (routing rcd) of
        Some ev \<Rightarrow> Some (Some ev, ?r) | None \<Rightarrow> mmap_next mem ?r)"
      using f sub whole by (simp add: mmap_next.simps [of mem r] frame_one_whole span_simps
          route_whole_record Let_def case_prod_beta split: option.splits)
    have "length (mmap_rest mem r) = length rcd + length tail"
      using whole by simp
    then have inv: "mmap_inv mem ?r"
      using f cur by (simp add: mmap_inv_def mmap_content_def mmap_rest_def)
    have "mmap_rest mem ?r = drop (length rcd) (mmap_rest mem r)"
      by (simp add: mmap_rest_def mmap_content_def add.commute)
    then have rest: "mmap_rest mem ?r = tail"
      using whole by simp
    show ?thesis
    proof (cases "event_of (routing rcd)")
      case (Some ev)
      then show ?thesis
        using step inv rest less.prems(2) whole by (auto simp: pull_whole)
    next
      case None
      have "length (mmap_rest mem ?r) < length (mmap_rest mem r)"
        using whole whole_record_bounds(1) [OF whole(2)] rest by (cases rcd) auto
      from less.hyps [OF this inv] None step rest less.prems(2) whole show ?thesis
        by (simp add: pull_whole)
    qed
  qed
qed

interpretation mm: pull_reader "mmap_next mem" "mmap_rest mem" mm_stats mm_failed mm_version
    "mmap_inv mem" for mem :: "addr \<Rightarrow> bytes option"
  by unfold_locales (use mmap_next_pull in blast)

context mapping_platform begin

lemma mmap_open_parses:
  assumes mo: "pf_open pf os p = (Inr m, os1)"
    and f: "files os p = Some f"
  shows "case parse_prologue f of
      Inl err \<Rightarrow> mmap_open pf os p = Some (Inl err, snd (pf_release pf os1 m))
    | Inr body \<Rightarrow> \<exists>r. mmap_open pf os p = Some (Inr r, os1) \<and> mmap_inv (pf_mem pf os1) r \<and>
        mmap_rest (pf_mem pf os1) r = body \<and> mm_stats r = stats_zero \<and> \<not> mm_failed r \<and>
        mm_version r = kSupportedDbnVersion \<and> mm_map r = m"
proof -
  have bytes: "mf_bytes (pf_mem pf os1) (mm_map (mmap_init m)) = Some f"
    using open_bytes [OF mo] f by (simp add: mmap_init_def)
  show ?thesis
    using mmap_skip_prologue_parses [OF bytes] mo bytes
    by (auto simp: mmap_open_def mmap_inv_def mmap_rest_def mmap_content_def mmap_init_def
        parse_prologue_def split: sum.splits if_splits)
qed

text \<open>
  The constructor as a whole: what it throws, what it leaves, and that it leaks nothing. The last
  part is the destructor of the reader it made: it gives back everything the constructor took.
\<close>

lemma mmap_open_effect:
  shows "\<exists>res os'. mmap_open pf os p = Some (res, os') \<and> handles os' = handles os \<and> files os' = files os \<and>
    (case res of
       Inl err \<Rightarrow> pf_mem pf os' = pf_mem pf os \<and>
         (pf_refuses pf os p err \<and> err \<in> os_errors p \<or> (\<nexists>e. pf_refuses pf os p e) \<and>
          (\<exists>f. files os p = Some f \<and> parse_prologue f = Inl err))
     | Inr r \<Rightarrow> (\<nexists>e. pf_refuses pf os p e) \<and> (\<exists>f body. files os p = Some f \<and> parse_prologue f = Inr body \<and>
         mmap_inv (pf_mem pf os') r \<and> mmap_rest (pf_mem pf os') r = body \<and>
         mm_stats r = stats_zero \<and> \<not> mm_failed r \<and> mm_version r = kSupportedDbnVersion \<and>
         handles (snd (pf_release pf os' (mm_map r))) = handles os \<and>
         files (snd (pf_release pf os' (mm_map r))) = files os \<and>
         pf_mem pf (snd (pf_release pf os' (mm_map r))) = pf_mem pf os))"
proof -
  obtain mres os1 where mo: "pf_open pf os p = (mres, os1)" by fastforce
  note E = open_effect [OF mo]
  show ?thesis
  proof (cases mres)
    case (Inl err)
    with E mo Inl show ?thesis by (simp add: mmap_open_def)
  next
    case (Inr m)
    obtain f where f: "files os p = Some f"
      using open_bytes [OF mo [unfolded Inr]] by blast
    note P = mmap_open_parses [OF mo [unfolded Inr] f]
    note R = open_release [OF mo [unfolded Inr]]
    have ok: "\<nexists>e. pf_refuses pf os p e"
      using E Inr by simp
    show ?thesis
    proof (cases "parse_prologue f")
      case (Inl err)
      with P R f ok show ?thesis by auto
    next
      case parsed: (Inr body)
      with P obtain r where r: "mmap_open pf os p = Some (Inr r, os1)" "mm_map r = m" by auto
      with r P parsed R E f ok show ?thesis by auto
    qed
  qed
qed

end

text \<open>\<open>next()\<close> never touches the mapping itself.\<close>

lemma mmap_next_map:
  assumes "mmap_next mem r = Some y"
  shows "mm_map (snd y) = mm_map r"
proof (rule mmap_next.raw_induct [where P = "\<lambda>mem r y. mm_map (snd y) = mm_map r", OF _ assms],
    goal_cases)
  case (1 nxt mem r y)
  from 1(2) obtain f rest fr where "mf_bytes mem (mm_map r) = Some f"
    and "span_subspan (mm_cursor r) f = Some rest" and "frame_one rest = Some fr"
    by (auto simp: bind_eq_Some_conv)
  note front = this
  show ?case
  proof (cases "fr_status fr")
    case FrameOk
    with 1(2) front obtain rcd routed where rcd: "span_first (fr_record_size fr) rest = Some rcd"
      "route_record rcd = Some routed"
      by (auto simp: bind_eq_Some_conv)
    let ?r = "r\<lparr>mm_cursor := mm_cursor r + fr_record_size fr,
      mm_stats := snd (tally (mm_stats r) routed)\<rparr>"
    have "y = (event_of routed, ?r) \<or> nxt mem ?r = Some y"
      using 1(2) front rcd FrameOk
      by (cases "event_of routed") (simp_all add: case_prod_beta Let_def)
    then show ?thesis
      using 1(1) [of mem ?r y] by auto
  qed (use 1(2) front in auto)
qed

end
