(* ===== verification/PosixFile.thy ===== *)
theory PosixFile
  imports MappedFile
begin

text \<open>
  The POSIX branch of \<open>core/src/memory_mapped_file.cpp\<close>: the constructor with every error path, and
  \<open>release_\<close>. The system calls are a parameter \<open>sys\<close>; what the code relies on of them is the
  hypothesis \<open>posix_laws\<close>.
\<close>

subsection \<open>The operating system\<close>

type_synonym fd = handle

text \<open>
  \<open>sys_mem os a\<close> is what the process reads at the mapping that starts at \<open>a\<close>, \<open>None\<close> where
  nothing is mapped. A call that can fail returns an \<open>option\<close>.
\<close>

record 'os posix =
  sys_open :: "'os \<Rightarrow> path \<Rightarrow> fd option \<times> 'os"
  sys_fstat :: "'os \<Rightarrow> fd \<Rightarrow> nat option \<times> 'os"
  sys_mmap :: "'os \<Rightarrow> nat \<Rightarrow> fd \<Rightarrow> addr option \<times> 'os"
  sys_close :: "'os \<Rightarrow> fd \<Rightarrow> 'os"
  sys_munmap :: "'os \<Rightarrow> addr \<Rightarrow> nat \<Rightarrow> 'os"
  sys_mem :: "'os \<Rightarrow> addr \<Rightarrow> bytes option"

text \<open>
  Refusal: one of the calls fails, on the path of calls that all succeeded before it. An empty file is
  not mapped, so nothing after the call for its size can fail.
\<close>

definition posix_refuses :: "'os posix \<Rightarrow> 'os \<Rightarrow> path \<Rightarrow> dbn_error \<Rightarrow> bool" where
  "posix_refuses sys os p err \<longleftrightarrow>
     (\<exists>os1. sys_open sys os p = (None, os1)) \<and> err = CannotOpen p \<or>
     (\<exists>fd os1 os2. sys_open sys os p = (Some fd, os1) \<and> sys_fstat sys os1 fd = (None, os2)) \<and>
       err = CannotStat p \<or>
     (\<exists>fd os1 n os2 os3. sys_open sys os p = (Some fd, os1) \<and> sys_fstat sys os1 fd = (Some n, os2) \<and>
       n \<noteq> 0 \<and> sys_mmap sys os2 n fd = (None, os3)) \<and> err = CannotMmap p"

subsection \<open>The code\<close>

definition mf_open :: "'os posix \<Rightarrow> 'os \<Rightarrow> path \<Rightarrow> (dbn_error + mapped_file) \<times> 'os" where
  "mf_open sys os p =
     (case sys_open sys os p of
        (None, os) \<Rightarrow> (Inl (CannotOpen p), os)
      | (Some fd, os) \<Rightarrow>
          (case sys_fstat sys os fd of
             (None, os) \<Rightarrow> (Inl (CannotStat p), sys_close sys os fd)
           | (Some st_size, os) \<Rightarrow>
               if st_size = 0 then (Inr mf_empty, sys_close sys os fd)
               else
                 (case sys_mmap sys os st_size fd of
                    (None, os) \<Rightarrow> (Inl (CannotMmap p), sys_close sys os fd)
                  | (Some a, os) \<Rightarrow>
                      (Inr \<lparr> mf_data = Some a, mf_size = st_size \<rparr>, sys_close sys os fd))))"

definition mf_release :: "'os posix \<Rightarrow> 'os \<Rightarrow> mapped_file \<Rightarrow> mapped_file \<times> 'os" where
  "mf_release sys os m =
     (case mf_data m of
        None \<Rightarrow> (m, os)
      | Some a \<Rightarrow> (m\<lparr>mf_data := None, mf_size := 0\<rparr>, sys_munmap sys os a (mf_size m)))"

definition posix_platform :: "'os posix \<Rightarrow> 'os platform" where
  "posix_platform sys =
     \<lparr> pf_open = mf_open sys, pf_release = mf_release sys, pf_mem = sys_mem sys,
       pf_refuses = posix_refuses sys \<rparr>"

lemma posix_platform_simps [simp]:
  "pf_open (posix_platform sys) = mf_open sys"
  "pf_release (posix_platform sys) = mf_release sys"
  "pf_mem (posix_platform sys) = sys_mem sys"
  "pf_refuses (posix_platform sys) = posix_refuses sys"
  by (simp_all add: posix_platform_def)

subsection \<open>What the code relies on of the system calls\<close>

text \<open>
  POSIX, with the open descriptors \<open>fds\<close>, the file behind a descriptor \<open>content\<close> and the file
  system \<open>file\<close> as observers: a failed call changes nothing, \<open>open\<close> gives a descriptor that was
  not open, \<open>fstat\<close> the size of the file, \<open>mmap\<close> a region where nothing was mapped that reads as
  the file, \<open>close\<close> and \<open>munmap\<close> release exactly what they are given. Closing a descriptor leaves
  the mappings alone. Files do not change while they are read.
\<close>

definition open_law ::
    "'os posix \<Rightarrow> ('os \<Rightarrow> fd set) \<Rightarrow> ('os \<Rightarrow> fd \<Rightarrow> bytes) \<Rightarrow> ('os \<Rightarrow> path \<Rightarrow> bytes option) \<Rightarrow> bool" where
  "open_law sys fds content file \<longleftrightarrow> (\<forall>os p r os'. sys_open sys os p = (r, os') \<longrightarrow>
     sys_mem sys os' = sys_mem sys os \<and> file os' = file os \<and>
     (case r of
        None \<Rightarrow> fds os' = fds os
      | Some fd \<Rightarrow> fd \<notin> fds os \<and> fds os' = insert fd (fds os) \<and> file os p = Some (content os' fd)))"

definition fstat_law ::
    "'os posix \<Rightarrow> ('os \<Rightarrow> fd set) \<Rightarrow> ('os \<Rightarrow> fd \<Rightarrow> bytes) \<Rightarrow> ('os \<Rightarrow> path \<Rightarrow> bytes option) \<Rightarrow> bool" where
  "fstat_law sys fds content file \<longleftrightarrow> (\<forall>os fd r os'. sys_fstat sys os fd = (r, os') \<longrightarrow>
     sys_mem sys os' = sys_mem sys os \<and> file os' = file os \<and> fds os' = fds os \<and>
     content os' = content os \<and>
     (case r of None \<Rightarrow> True | Some n \<Rightarrow> fd \<in> fds os \<longrightarrow> n = length (content os fd)))"

definition mmap_law ::
    "'os posix \<Rightarrow> ('os \<Rightarrow> fd set) \<Rightarrow> ('os \<Rightarrow> fd \<Rightarrow> bytes) \<Rightarrow> ('os \<Rightarrow> path \<Rightarrow> bytes option) \<Rightarrow> bool" where
  "mmap_law sys fds content file \<longleftrightarrow> (\<forall>os n fd r os'. sys_mmap sys os n fd = (r, os') \<longrightarrow>
     fds os' = fds os \<and> file os' = file os \<and>
     (case r of
        None \<Rightarrow> sys_mem sys os' = sys_mem sys os
      | Some a \<Rightarrow> fd \<in> fds os \<longrightarrow> n = length (content os fd) \<longrightarrow>
          sys_mem sys os a = None \<and> sys_mem sys os' = (sys_mem sys os)(a \<mapsto> content os fd)))"

definition close_law ::
    "'os posix \<Rightarrow> ('os \<Rightarrow> fd set) \<Rightarrow> ('os \<Rightarrow> path \<Rightarrow> bytes option) \<Rightarrow> bool" where
  "close_law sys fds file \<longleftrightarrow> (\<forall>os fd.
     sys_mem sys (sys_close sys os fd) = sys_mem sys os \<and> file (sys_close sys os fd) = file os \<and>
     fds (sys_close sys os fd) = fds os - {fd})"

definition munmap_law ::
    "'os posix \<Rightarrow> ('os \<Rightarrow> fd set) \<Rightarrow> ('os \<Rightarrow> path \<Rightarrow> bytes option) \<Rightarrow> bool" where
  "munmap_law sys fds file \<longleftrightarrow> (\<forall>os a n region. sys_mem sys os a = Some region \<longrightarrow> n = length region \<longrightarrow>
     sys_mem sys (sys_munmap sys os a n) = (sys_mem sys os)(a := None) \<and>
     file (sys_munmap sys os a n) = file os \<and> fds (sys_munmap sys os a n) = fds os)"

definition posix_laws ::
    "'os posix \<Rightarrow> ('os \<Rightarrow> fd set) \<Rightarrow> ('os \<Rightarrow> fd \<Rightarrow> bytes) \<Rightarrow> ('os \<Rightarrow> path \<Rightarrow> bytes option) \<Rightarrow> bool" where
  "posix_laws sys fds content file \<longleftrightarrow>
     open_law sys fds content file \<and> fstat_law sys fds content file \<and>
     mmap_law sys fds content file \<and> close_law sys fds file \<and> munmap_law sys fds file"

lemma posix_open:
  "posix_laws sys fds content file \<Longrightarrow> sys_open sys os p = (r, os') \<Longrightarrow>
    sys_mem sys os' = sys_mem sys os \<and> file os' = file os \<and>
    (case r of None \<Rightarrow> fds os' = fds os
     | Some fd \<Rightarrow> fd \<notin> fds os \<and> fds os' = insert fd (fds os) \<and> file os p = Some (content os' fd))"
  by (simp only: posix_laws_def open_law_def)

lemma posix_fstat:
  "posix_laws sys fds content file \<Longrightarrow> sys_fstat sys os fd = (r, os') \<Longrightarrow>
    sys_mem sys os' = sys_mem sys os \<and> file os' = file os \<and> fds os' = fds os \<and>
    content os' = content os \<and>
    (case r of None \<Rightarrow> True | Some n \<Rightarrow> fd \<in> fds os \<longrightarrow> n = length (content os fd))"
  by (simp only: posix_laws_def fstat_law_def)

lemma posix_mmap:
  "posix_laws sys fds content file \<Longrightarrow> sys_mmap sys os n fd = (r, os') \<Longrightarrow>
    fds os' = fds os \<and> file os' = file os \<and>
    (case r of None \<Rightarrow> sys_mem sys os' = sys_mem sys os
     | Some a \<Rightarrow> fd \<in> fds os \<longrightarrow> n = length (content os fd) \<longrightarrow>
         sys_mem sys os a = None \<and> sys_mem sys os' = (sys_mem sys os)(a \<mapsto> content os fd))"
  by (simp only: posix_laws_def mmap_law_def)

lemma posix_close:
  "posix_laws sys fds content file \<Longrightarrow>
    sys_mem sys (sys_close sys os fd) = sys_mem sys os \<and> file (sys_close sys os fd) = file os \<and>
    fds (sys_close sys os fd) = fds os - {fd}"
  by (simp only: posix_laws_def close_law_def)

lemma posix_munmap:
  "posix_laws sys fds content file \<Longrightarrow> sys_mem sys os a = Some region \<Longrightarrow> n = length region \<Longrightarrow>
    sys_mem sys (sys_munmap sys os a n) = (sys_mem sys os)(a := None) \<and>
    file (sys_munmap sys os a n) = file os \<and> fds (sys_munmap sys os a n) = fds os"
  by (simp only: posix_laws_def munmap_law_def)

subsection \<open>The constructor\<close>

text \<open>
  Every path through the constructor closes the descriptor it opened; the object it makes owns a
  fresh mapping of the whole file, or is empty for an empty file. It throws exactly when a call fails.
\<close>

lemma mf_open_effect:
  assumes laws: "posix_laws sys fds content file" and mo: "mf_open sys os p = (res, os')"
  shows "fds os' = fds os \<and> file os' = file os \<and>
    (case res of
       Inl err \<Rightarrow> posix_refuses sys os p err \<and> err \<in> os_errors p \<and> sys_mem sys os' = sys_mem sys os
     | Inr m \<Rightarrow> (\<nexists>err. posix_refuses sys os p err) \<and>
         (m = mf_empty \<and> file os p = Some [] \<and> sys_mem sys os' = sys_mem sys os \<or>
         (\<exists>a c. m = \<lparr> mf_data = Some a, mf_size = length c \<rparr> \<and> c \<noteq> [] \<and> file os p = Some c \<and>
           sys_mem sys os a = None \<and> sys_mem sys os' = (sys_mem sys os)(a \<mapsto> c))))"
proof -
  note close = posix_close [OF laws] and errs = os_errors_def [of p] posix_refuses_def
  obtain r1 os1 where o1: "sys_open sys os p = (r1, os1)" by fastforce
  note L1 = posix_open [OF laws o1]
  show ?thesis
  proof (cases r1)
    case None
    with mo o1 L1 show ?thesis by (auto simp: mf_open_def errs)
  next
    case (Some fd)
    obtain r2 os2 where o2: "sys_fstat sys os1 fd = (r2, os2)" by fastforce
    note L2 = posix_fstat [OF laws o2]
    obtain r3 os3 where o3: "sys_mmap sys os2 (the r2) fd = (r3, os3)" by fastforce
    note L3 = posix_mmap [OF laws o3]
    show ?thesis
      using mo o1 o2 o3 Some L1 L2 L3 close
      by (cases r2; cases r3) (auto simp: mf_open_def errs split: if_splits)
  qed
qed

text \<open>Releasing what an object holds removes exactly that mapping.\<close>

lemma mf_release_effect:
  assumes laws: "posix_laws sys fds content file" and live: "holds_live (sys_mem sys os) m"
    and rel: "mf_release sys os m = (m', os')"
  shows "m' = mf_empty \<and> fds os' = fds os \<and> file os' = file os \<and>
    sys_mem sys os' = (case mf_data m of None \<Rightarrow> sys_mem sys os | Some a \<Rightarrow> (sys_mem sys os)(a := None))"
proof (cases "mf_data m")
  case None
  with rel live show ?thesis
    by (cases m) (auto simp: mf_release_def holds_live_def mf_empty_def)
next
  case (Some a)
  with live obtain c where "sys_mem sys os a = Some c" "mf_size m = length c"
    by (auto simp: holds_live_def)
  from posix_munmap [OF laws this] Some rel show ?thesis
    by (cases m) (auto simp: mf_release_def mf_empty_def)
qed

subsection \<open>The platform\<close>

lemma posix_system_mapping:
  assumes laws: "posix_laws sys fds content file"
  shows "mapping_platform (posix_platform sys) fds file"
  by (unfold_locales; unfold posix_platform_simps)
     (fact mf_open_effect [OF laws], fact mf_release_effect [OF laws])

locale posix_system =
  fixes sys :: "'os posix"
    and fds :: "'os \<Rightarrow> fd set"
    and content :: "'os \<Rightarrow> fd \<Rightarrow> bytes"
    and files :: "'os \<Rightarrow> path \<Rightarrow> bytes option"
  assumes laws: "posix_laws sys fds content files"

sublocale posix_system \<subseteq> px: mapping_platform "posix_platform sys" fds files
  by (rule posix_system_mapping [OF laws])

end
