(* ===== verification/WinFile.thy ===== *)
theory WinFile
  imports MappedFile
begin

text \<open>
  The Windows branch of \<open>core/src/memory_mapped_file.cpp\<close>: the constructor with its two handles and
  every error path, and \<open>release_\<close>. The system calls are a parameter \<open>api\<close>; what the code relies on
  of them is the hypothesis \<open>win32_laws\<close>.
\<close>

subsection \<open>The operating system\<close>

text \<open>A call that can fail returns an \<open>option\<close>: \<open>None\<close> is \<open>INVALID_HANDLE_VALUE\<close>, 0 or \<open>nullptr\<close>.\<close>

record 'os win32 =
  win_CreateFileW :: "'os \<Rightarrow> path \<Rightarrow> handle option \<times> 'os"
  win_GetFileSizeEx :: "'os \<Rightarrow> handle \<Rightarrow> nat option \<times> 'os"
  win_CreateFileMappingW :: "'os \<Rightarrow> handle \<Rightarrow> handle option \<times> 'os"
  win_MapViewOfFile :: "'os \<Rightarrow> handle \<Rightarrow> addr option \<times> 'os"
  win_CloseHandle :: "'os \<Rightarrow> handle \<Rightarrow> 'os"
  win_UnmapViewOfFile :: "'os \<Rightarrow> addr \<Rightarrow> 'os"
  win_mem :: "'os \<Rightarrow> addr \<Rightarrow> bytes option"

text \<open>Refusal: one of the calls fails, on the path of calls that all succeeded before it.\<close>

definition win_refuses :: "'os win32 \<Rightarrow> 'os \<Rightarrow> path \<Rightarrow> dbn_error \<Rightarrow> bool" where
  "win_refuses api os p err \<longleftrightarrow>
     (\<exists>os1. win_CreateFileW api os p = (None, os1)) \<and> err = CannotOpen p \<or>
     (\<exists>h os1 os2. win_CreateFileW api os p = (Some h, os1) \<and> win_GetFileSizeEx api os1 h = (None, os2)) \<and>
       err = CannotSize p \<or>
     (\<exists>h os1 n os2 os3. win_CreateFileW api os p = (Some h, os1) \<and>
       win_GetFileSizeEx api os1 h = (Some n, os2) \<and> n \<noteq> 0 \<and>
       win_CreateFileMappingW api os2 h = (None, os3)) \<and> err = CannotMap p \<or>
     (\<exists>h os1 n os2 m os3 os4. win_CreateFileW api os p = (Some h, os1) \<and>
       win_GetFileSizeEx api os1 h = (Some n, os2) \<and> n \<noteq> 0 \<and>
       win_CreateFileMappingW api os2 h = (Some m, os3) \<and> win_MapViewOfFile api os3 m = (None, os4)) \<and>
       err = CannotView p"

subsection \<open>The code\<close>

definition wf_open :: "'os win32 \<Rightarrow> 'os \<Rightarrow> path \<Rightarrow> (dbn_error + mapped_file) \<times> 'os" where
  "wf_open api os p =
     (case win_CreateFileW api os p of
        (None, os) \<Rightarrow> (Inl (CannotOpen p), os)
      | (Some hfile, os) \<Rightarrow>
          (case win_GetFileSizeEx api os hfile of
             (None, os) \<Rightarrow> (Inl (CannotSize p), win_CloseHandle api os hfile)
           | (Some file_size, os) \<Rightarrow>
               if file_size = 0 then (Inr mf_empty, win_CloseHandle api os hfile)
               else
                 (case win_CreateFileMappingW api os hfile of
                    (None, os) \<Rightarrow> (Inl (CannotMap p), win_CloseHandle api os hfile)
                  | (Some mapping, os) \<Rightarrow>
                      (case win_MapViewOfFile api os mapping of
                         (view, os) \<Rightarrow>
                           let os = win_CloseHandle api os mapping;
                               os = win_CloseHandle api os hfile
                           in (case view of
                                 None \<Rightarrow> (Inl (CannotView p), os)
                               | Some a \<Rightarrow>
                                   (Inr \<lparr> mf_data = Some a, mf_size = file_size \<rparr>, os))))))"

definition wf_release :: "'os win32 \<Rightarrow> 'os \<Rightarrow> mapped_file \<Rightarrow> mapped_file \<times> 'os" where
  "wf_release api os m =
     (case mf_data m of
        None \<Rightarrow> (m, os)
      | Some a \<Rightarrow> (m\<lparr>mf_data := None, mf_size := 0\<rparr>, win_UnmapViewOfFile api os a))"

definition win_platform :: "'os win32 \<Rightarrow> 'os platform" where
  "win_platform api =
     \<lparr> pf_open = wf_open api, pf_release = wf_release api, pf_mem = win_mem api,
       pf_refuses = win_refuses api \<rparr>"

lemma win_platform_simps [simp]:
  "pf_open (win_platform api) = wf_open api"
  "pf_release (win_platform api) = wf_release api"
  "pf_mem (win_platform api) = win_mem api"
  "pf_refuses (win_platform api) = win_refuses api"
  by (simp_all add: win_platform_def)

subsection \<open>What the code relies on of the system calls\<close>

text \<open>
  The Win32 documentation, with the open handles \<open>hs\<close>, the file a file or mapping handle stands for
  \<open>content\<close> and the file system \<open>file\<close> as observers. A failed call changes nothing; a call that makes
  a handle makes a new one. \<open>GetFileSizeEx\<close> gives the size of the file, a mapping object stands for
  the whole file, and a view of it with offset and length 0 shows all of it, at addresses where
  nothing was mapped. The view stays when the handles are closed. Files do not change while they are
  read.
\<close>

definition create_file_law ::
    "'os win32 \<Rightarrow> ('os \<Rightarrow> handle set) \<Rightarrow> ('os \<Rightarrow> handle \<Rightarrow> bytes) \<Rightarrow> ('os \<Rightarrow> path \<Rightarrow> bytes option) \<Rightarrow> bool"
  where
  "create_file_law api hs content file \<longleftrightarrow> (\<forall>os p r os'. win_CreateFileW api os p = (r, os') \<longrightarrow>
     win_mem api os' = win_mem api os \<and> file os' = file os \<and>
     (case r of
        None \<Rightarrow> hs os' = hs os
      | Some h \<Rightarrow> h \<notin> hs os \<and> hs os' = insert h (hs os) \<and> file os p = Some (content os' h)))"

definition file_size_law ::
    "'os win32 \<Rightarrow> ('os \<Rightarrow> handle set) \<Rightarrow> ('os \<Rightarrow> handle \<Rightarrow> bytes) \<Rightarrow> ('os \<Rightarrow> path \<Rightarrow> bytes option) \<Rightarrow> bool"
  where
  "file_size_law api hs content file \<longleftrightarrow> (\<forall>os h r os'. win_GetFileSizeEx api os h = (r, os') \<longrightarrow>
     win_mem api os' = win_mem api os \<and> file os' = file os \<and> hs os' = hs os \<and>
     content os' = content os \<and>
     (case r of None \<Rightarrow> True | Some n \<Rightarrow> h \<in> hs os \<longrightarrow> n = length (content os h)))"

definition file_mapping_law ::
    "'os win32 \<Rightarrow> ('os \<Rightarrow> handle set) \<Rightarrow> ('os \<Rightarrow> handle \<Rightarrow> bytes) \<Rightarrow> ('os \<Rightarrow> path \<Rightarrow> bytes option) \<Rightarrow> bool"
  where
  "file_mapping_law api hs content file \<longleftrightarrow> (\<forall>os h r os'. win_CreateFileMappingW api os h = (r, os') \<longrightarrow>
     win_mem api os' = win_mem api os \<and> file os' = file os \<and>
     (case r of
        None \<Rightarrow> hs os' = hs os
      | Some m \<Rightarrow> m \<notin> hs os \<and> hs os' = insert m (hs os) \<and>
          (h \<in> hs os \<longrightarrow> content os' m = content os h)))"

definition map_view_law ::
    "'os win32 \<Rightarrow> ('os \<Rightarrow> handle set) \<Rightarrow> ('os \<Rightarrow> handle \<Rightarrow> bytes) \<Rightarrow> ('os \<Rightarrow> path \<Rightarrow> bytes option) \<Rightarrow> bool"
  where
  "map_view_law api hs content file \<longleftrightarrow> (\<forall>os m r os'. win_MapViewOfFile api os m = (r, os') \<longrightarrow>
     hs os' = hs os \<and> file os' = file os \<and>
     (case r of
        None \<Rightarrow> win_mem api os' = win_mem api os
      | Some a \<Rightarrow> m \<in> hs os \<longrightarrow>
          win_mem api os a = None \<and> win_mem api os' = (win_mem api os)(a \<mapsto> content os m)))"

definition close_handle_law ::
    "'os win32 \<Rightarrow> ('os \<Rightarrow> handle set) \<Rightarrow> ('os \<Rightarrow> path \<Rightarrow> bytes option) \<Rightarrow> bool" where
  "close_handle_law api hs file \<longleftrightarrow> (\<forall>os h.
     win_mem api (win_CloseHandle api os h) = win_mem api os \<and>
     file (win_CloseHandle api os h) = file os \<and> hs (win_CloseHandle api os h) = hs os - {h})"

definition unmap_view_law ::
    "'os win32 \<Rightarrow> ('os \<Rightarrow> handle set) \<Rightarrow> ('os \<Rightarrow> path \<Rightarrow> bytes option) \<Rightarrow> bool" where
  "unmap_view_law api hs file \<longleftrightarrow> (\<forall>os a region. win_mem api os a = Some region \<longrightarrow>
     win_mem api (win_UnmapViewOfFile api os a) = (win_mem api os)(a := None) \<and>
     file (win_UnmapViewOfFile api os a) = file os \<and> hs (win_UnmapViewOfFile api os a) = hs os)"

definition win32_laws ::
    "'os win32 \<Rightarrow> ('os \<Rightarrow> handle set) \<Rightarrow> ('os \<Rightarrow> handle \<Rightarrow> bytes) \<Rightarrow> ('os \<Rightarrow> path \<Rightarrow> bytes option) \<Rightarrow> bool"
  where
  "win32_laws api hs content file \<longleftrightarrow>
     create_file_law api hs content file \<and> file_size_law api hs content file \<and>
     file_mapping_law api hs content file \<and> map_view_law api hs content file \<and>
     close_handle_law api hs file \<and> unmap_view_law api hs file"

lemma win32_create_file:
  "win32_laws api hs content file \<Longrightarrow> win_CreateFileW api os p = (r, os') \<Longrightarrow>
    win_mem api os' = win_mem api os \<and> file os' = file os \<and>
    (case r of None \<Rightarrow> hs os' = hs os
     | Some h \<Rightarrow> h \<notin> hs os \<and> hs os' = insert h (hs os) \<and> file os p = Some (content os' h))"
  by (simp only: win32_laws_def create_file_law_def)

lemma win32_file_size:
  "win32_laws api hs content file \<Longrightarrow> win_GetFileSizeEx api os h = (r, os') \<Longrightarrow>
    win_mem api os' = win_mem api os \<and> file os' = file os \<and> hs os' = hs os \<and>
    content os' = content os \<and>
    (case r of None \<Rightarrow> True | Some n \<Rightarrow> h \<in> hs os \<longrightarrow> n = length (content os h))"
  by (simp only: win32_laws_def file_size_law_def)

lemma win32_file_mapping:
  "win32_laws api hs content file \<Longrightarrow> win_CreateFileMappingW api os h = (r, os') \<Longrightarrow>
    win_mem api os' = win_mem api os \<and> file os' = file os \<and>
    (case r of None \<Rightarrow> hs os' = hs os
     | Some m \<Rightarrow> m \<notin> hs os \<and> hs os' = insert m (hs os) \<and>
         (h \<in> hs os \<longrightarrow> content os' m = content os h))"
  by (simp only: win32_laws_def file_mapping_law_def)

lemma win32_map_view:
  "win32_laws api hs content file \<Longrightarrow> win_MapViewOfFile api os m = (r, os') \<Longrightarrow>
    hs os' = hs os \<and> file os' = file os \<and>
    (case r of None \<Rightarrow> win_mem api os' = win_mem api os
     | Some a \<Rightarrow> m \<in> hs os \<longrightarrow>
         win_mem api os a = None \<and> win_mem api os' = (win_mem api os)(a \<mapsto> content os m))"
  by (simp only: win32_laws_def map_view_law_def)

lemma win32_close:
  "win32_laws api hs content file \<Longrightarrow>
    win_mem api (win_CloseHandle api os h) = win_mem api os \<and>
    file (win_CloseHandle api os h) = file os \<and> hs (win_CloseHandle api os h) = hs os - {h}"
  by (simp only: win32_laws_def close_handle_law_def)

lemma win32_unmap:
  "win32_laws api hs content file \<Longrightarrow> win_mem api os a = Some region \<Longrightarrow>
    win_mem api (win_UnmapViewOfFile api os a) = (win_mem api os)(a := None) \<and>
    file (win_UnmapViewOfFile api os a) = file os \<and> hs (win_UnmapViewOfFile api os a) = hs os"
  by (simp only: win32_laws_def unmap_view_law_def)

subsection \<open>The constructor and the release\<close>

lemma wf_open_effect:
  assumes laws: "win32_laws api hs content file" and wo: "wf_open api os p = (res, os')"
  shows "hs os' = hs os \<and> file os' = file os \<and>
    (case res of
       Inl err \<Rightarrow> win_refuses api os p err \<and> err \<in> os_errors p \<and> win_mem api os' = win_mem api os
     | Inr m \<Rightarrow> (\<nexists>err. win_refuses api os p err) \<and>
         (m = mf_empty \<and> file os p = Some [] \<and> win_mem api os' = win_mem api os \<or>
         (\<exists>a c. m = \<lparr> mf_data = Some a, mf_size = length c \<rparr> \<and> c \<noteq> [] \<and> file os p = Some c \<and>
           win_mem api os a = None \<and> win_mem api os' = (win_mem api os)(a \<mapsto> c))))"
proof -
  note close = win32_close [OF laws] and errs = os_errors_def [of p] win_refuses_def
  obtain r1 os1 where o1: "win_CreateFileW api os p = (r1, os1)" by fastforce
  note L1 = win32_create_file [OF laws o1]
  show ?thesis
  proof (cases r1)
    case None
    with wo o1 L1 show ?thesis by (auto simp: wf_open_def errs)
  next
    case hfile: (Some h)
    obtain r2 os2 where o2: "win_GetFileSizeEx api os1 h = (r2, os2)" by fastforce
    note L2 = win32_file_size [OF laws o2]
    obtain r3 os3 where o3: "win_CreateFileMappingW api os2 h = (r3, os3)" by fastforce
    note L3 = win32_file_mapping [OF laws o3]
    show ?thesis
    proof (cases r3)
      case None
      show ?thesis
        using wo o1 o2 o3 hfile None L1 L2 L3 close
        by (cases r2) (auto simp: wf_open_def errs split: if_splits)
    next
      case mapping: (Some m)
      obtain r4 os4 where o4: "win_MapViewOfFile api os3 m = (r4, os4)" by fastforce
      note L4 = win32_map_view [OF laws o4]
      show ?thesis
        using wo o1 o2 o3 o4 hfile mapping L1 L2 L3 L4 close
        by (cases r2; cases r4) (auto simp: wf_open_def errs Let_def split: if_splits)
    qed
  qed
qed

lemma wf_release_effect:
  assumes laws: "win32_laws api hs content file" and live: "holds_live (win_mem api os) m"
    and rel: "wf_release api os m = (m', os')"
  shows "m' = mf_empty \<and> hs os' = hs os \<and> file os' = file os \<and>
    win_mem api os' = (case mf_data m of None \<Rightarrow> win_mem api os | Some a \<Rightarrow> (win_mem api os)(a := None))"
proof (cases "mf_data m")
  case None
  with rel live show ?thesis
    by (cases m) (auto simp: wf_release_def holds_live_def mf_empty_def)
next
  case (Some a)
  with live obtain c where "win_mem api os a = Some c"
    by (auto simp: holds_live_def)
  from win32_unmap [OF laws this] Some rel show ?thesis
    by (cases m) (auto simp: wf_release_def mf_empty_def)
qed

subsection \<open>The platform\<close>

lemma win32_system_mapping:
  assumes laws: "win32_laws api hs content file"
  shows "mapping_platform (win_platform api) hs file"
  by (unfold_locales; unfold win_platform_simps)
     (fact wf_open_effect [OF laws], fact wf_release_effect [OF laws])

locale win32_system =
  fixes api :: "'os win32"
    and hs :: "'os \<Rightarrow> handle set"
    and content :: "'os \<Rightarrow> handle \<Rightarrow> bytes"
    and files :: "'os \<Rightarrow> path \<Rightarrow> bytes option"
  assumes laws: "win32_laws api hs content files"

sublocale win32_system \<subseteq> wx: mapping_platform "win_platform api" hs files
  by (rule win32_system_mapping [OF laws])

end
