(* ===== verification/Platforms.thy ===== *)
theory Platforms
  imports PosixFile WinFile
begin

text \<open>
  The two builds of the program: \<open>supported_platform pf handles files\<close> says that \<open>pf\<close> is the POSIX
  branch over system calls that obey \<open>posix_laws\<close>, or the Windows branch over calls that obey
  \<open>win32_laws\<close>. Every fact about \<open>MemoryMappedFile\<close> and its clients holds for both.
\<close>

definition supported_platform ::
    "'os platform \<Rightarrow> ('os \<Rightarrow> handle set) \<Rightarrow> ('os \<Rightarrow> path \<Rightarrow> bytes option) \<Rightarrow> bool" where
  "supported_platform pf handles files \<longleftrightarrow>
     (\<exists>sys content. pf = posix_platform sys \<and> posix_laws sys handles content files) \<or>
     (\<exists>api content. pf = win_platform api \<and> win32_laws api handles content files)"

lemma supported_posix: "posix_laws sys fds content files \<Longrightarrow> supported_platform (posix_platform sys) fds files"
  by (auto simp: supported_platform_def)

lemma supported_win32: "win32_laws api hs content files \<Longrightarrow> supported_platform (win_platform api) hs files"
  by (auto simp: supported_platform_def)

text \<open>Each build keeps the contract of a platform.\<close>

lemma supported_mapping_platform:
  "supported_platform pf handles files \<Longrightarrow> mapping_platform pf handles files"
  by (auto simp: supported_platform_def intro: posix_system_mapping win32_system_mapping)

end
