(* ===== verification/ExampleSystems.thy ===== *)
theory ExampleSystems
  imports Platforms
begin

text \<open>
  A small operating system with a POSIX and a Win32 interface that satisfy \<open>posix_laws\<close> and
  \<open>win32_laws\<close>, so that the theorems about \<open>MemoryMappedFile\<close> and its clients can be applied to
  concrete runs. Descriptors, handles and addresses are handed out by a counter; a call fails when
  its counter is taken or its argument is not open.
\<close>

record ex_os =
  ex_files :: "path \<Rightarrow> bytes option"
  ex_fds :: "fd \<Rightarrow> bytes option"
  ex_mem :: "addr \<Rightarrow> bytes option"
  ex_next :: nat

definition ex_open :: "ex_os \<Rightarrow> path \<Rightarrow> fd option \<times> ex_os" where
  "ex_open os p =
     (case ex_files os p of
        None \<Rightarrow> (None, os)
      | Some c \<Rightarrow>
          if ex_fds os (ex_next os) = None
          then (Some (ex_next os),
                os\<lparr>ex_fds := (ex_fds os)(ex_next os \<mapsto> c), ex_next := ex_next os + 1\<rparr>)
          else (None, os))"

definition ex_fstat :: "ex_os \<Rightarrow> fd \<Rightarrow> nat option \<times> ex_os" where
  "ex_fstat os fd = (map_option length (ex_fds os fd), os)"

definition ex_mmap :: "ex_os \<Rightarrow> nat \<Rightarrow> fd \<Rightarrow> addr option \<times> ex_os" where
  "ex_mmap os n fd =
     (case ex_fds os fd of
        None \<Rightarrow> (None, os)
      | Some c \<Rightarrow>
          if ex_mem os (ex_next os) = None
          then (Some (ex_next os),
                os\<lparr>ex_mem := (ex_mem os)(ex_next os \<mapsto> c), ex_next := ex_next os + 1\<rparr>)
          else (None, os))"

definition ex_posix :: "ex_os posix" where
  "ex_posix =
     \<lparr> sys_open = ex_open, sys_fstat = ex_fstat, sys_mmap = ex_mmap,
       sys_close = (\<lambda>os fd. os\<lparr>ex_fds := (ex_fds os)(fd := None)\<rparr>),
       sys_munmap = (\<lambda>os a n. os\<lparr>ex_mem := (ex_mem os)(a := None)\<rparr>),
       sys_mem = ex_mem \<rparr>"

definition ex_content :: "ex_os \<Rightarrow> fd \<Rightarrow> bytes" where
  "ex_content os fd = (case ex_fds os fd of Some c \<Rightarrow> c | None \<Rightarrow> [])"

lemma ex_posix_laws: "posix_laws ex_posix (\<lambda>os. dom (ex_fds os)) ex_content ex_files"
proof -
  note defs = ex_posix_def ex_open_def ex_fstat_def ex_mmap_def ex_content_def
  have "open_law ex_posix (\<lambda>os. dom (ex_fds os)) ex_content ex_files"
    by (auto simp: open_law_def defs split: option.splits if_splits)
  moreover have "fstat_law ex_posix (\<lambda>os. dom (ex_fds os)) ex_content ex_files"
    by (auto simp: fstat_law_def defs split: option.splits)
  moreover have "mmap_law ex_posix (\<lambda>os. dom (ex_fds os)) ex_content ex_files"
    by (auto simp: mmap_law_def defs split: option.splits if_splits)
  moreover have "close_law ex_posix (\<lambda>os. dom (ex_fds os)) ex_files"
    by (auto simp: close_law_def defs)
  moreover have "munmap_law ex_posix (\<lambda>os. dom (ex_fds os)) ex_files"
    by (auto simp: munmap_law_def defs)
  ultimately show ?thesis
    by (simp add: posix_laws_def)
qed

text \<open>The same system behind the Win32 calls: a mapping handle stands for the file it was made from.\<close>

definition ex_file_mapping :: "ex_os \<Rightarrow> handle \<Rightarrow> handle option \<times> ex_os" where
  "ex_file_mapping os h =
     (case ex_fds os h of
        None \<Rightarrow> (None, os)
      | Some c \<Rightarrow>
          if ex_fds os (ex_next os) = None
          then (Some (ex_next os),
                os\<lparr>ex_fds := (ex_fds os)(ex_next os \<mapsto> c), ex_next := ex_next os + 1\<rparr>)
          else (None, os))"

definition ex_win32 :: "ex_os win32" where
  "ex_win32 =
     \<lparr> win_CreateFileW = ex_open, win_GetFileSizeEx = ex_fstat,
       win_CreateFileMappingW = ex_file_mapping, win_MapViewOfFile = (\<lambda>os. ex_mmap os 0),
       win_CloseHandle = (\<lambda>os h. os\<lparr>ex_fds := (ex_fds os)(h := None)\<rparr>),
       win_UnmapViewOfFile = (\<lambda>os a. os\<lparr>ex_mem := (ex_mem os)(a := None)\<rparr>),
       win_mem = ex_mem \<rparr>"

lemma ex_win32_laws: "win32_laws ex_win32 (\<lambda>os. dom (ex_fds os)) ex_content ex_files"
proof -
  note defs = ex_win32_def ex_open_def ex_fstat_def ex_mmap_def ex_file_mapping_def ex_content_def
  have "create_file_law ex_win32 (\<lambda>os. dom (ex_fds os)) ex_content ex_files"
    by (auto simp: create_file_law_def defs split: option.splits if_splits)
  moreover have "file_size_law ex_win32 (\<lambda>os. dom (ex_fds os)) ex_content ex_files"
    by (auto simp: file_size_law_def defs split: option.splits)
  moreover have "file_mapping_law ex_win32 (\<lambda>os. dom (ex_fds os)) ex_content ex_files"
    by (auto simp: file_mapping_law_def defs split: option.splits if_splits)
  moreover have "map_view_law ex_win32 (\<lambda>os. dom (ex_fds os)) ex_content ex_files"
    by (auto simp: map_view_law_def defs split: option.splits if_splits)
  moreover have "close_handle_law ex_win32 (\<lambda>os. dom (ex_fds os)) ex_files"
    by (auto simp: close_handle_law_def defs)
  moreover have "unmap_view_law ex_win32 (\<lambda>os. dom (ex_fds os)) ex_files"
    by (auto simp: unmap_view_law_def defs)
  ultimately show ?thesis
    by (simp add: win32_laws_def)
qed

interpretation ex_posix_sys: posix_system ex_posix "\<lambda>os. dom (ex_fds os)" ex_content ex_files
  by unfold_locales (rule ex_posix_laws)

interpretation ex_win32_sys: win32_system ex_win32 "\<lambda>os. dom (ex_fds os)" ex_content ex_files
  by unfold_locales (rule ex_win32_laws)

lemmas ex_supported = supported_posix [OF ex_posix_laws] supported_win32 [OF ex_win32_laws]

text \<open>A system with the given files, nothing open and nothing mapped.\<close>

definition ex_start :: "(path \<Rightarrow> bytes option) \<Rightarrow> ex_os" where
  "ex_start files =
     \<lparr> ex_files = files, ex_fds = Map.empty, ex_mem = Map.empty, ex_next = 3 \<rparr>"

lemma ex_files_start: "ex_files (ex_start files) = files"
  by (simp add: ex_start_def)

lemma ex_mem_start: "ex_mem (ex_start files) = Map.empty"
  by (simp add: ex_start_def)

lemma ex_posix_mem: "pf_mem (posix_platform ex_posix) = ex_mem"
  by (simp add: ex_posix_def)

lemma ex_mem_calls: "sys_mem ex_posix = ex_mem" "win_mem ex_win32 = ex_mem"
  by (simp_all add: ex_posix_def ex_win32_def)

text \<open>With nothing open and nothing mapped it refuses no file that it has.\<close>

lemma ex_idle_accepts:
  assumes "ex_files os p = Some f" and "ex_fds os = Map.empty" and "ex_mem os = Map.empty"
  shows "\<not> posix_refuses ex_posix os p err" "\<not> win_refuses ex_win32 os p err"
  using assms
  by (auto simp: posix_refuses_def win_refuses_def ex_posix_def ex_win32_def ex_open_def
      ex_fstat_def ex_mmap_def ex_file_mapping_def)

lemma ex_accepts:
  assumes "files p = Some f"
  shows "\<not> posix_refuses ex_posix (ex_start files) p err" "\<not> win_refuses ex_win32 (ex_start files) p err"
  using ex_idle_accepts [of "ex_start files" p f err] assms by (simp_all add: ex_start_def)

end
