(* ===== verification/MmapIngest.thy ===== *)
theory MmapIngest
  imports MmapReader Ingest ExampleSystems
begin

text \<open>
  What a consumer of \<open>MmapDbnReader\<close> sees: construction over the operating system, the pull loop to
  the end, the accessors, and the destructor, which gives the mapping back.
\<close>

definition mmap_ingest ::
    "'os platform \<Rightarrow> 'os \<Rightarrow> path \<Rightarrow> ((dbn_error + ingest_result) \<times> 'os) option" where
  "mmap_ingest pf os p = do {
     (res, os) \<leftarrow> mmap_open pf os p;
     case res of
       Inl err \<Rightarrow> Some (Inl err, os)
     | Inr r \<Rightarrow> do {
         (es, r) \<leftarrow> drain (mmap_next (pf_mem pf os)) r;
         Some (Inr \<lparr> ig_events = es, ig_stats = mmap_stats r, ig_failed = mmap_failed r,
                     ig_version = mmap_version r \<rparr>, snd (pf_release pf os (mm_map r)))
       }
   }"

context mapping_platform begin

lemma mmap_ingest_ingest:
  shows "\<exists>res os'. mmap_ingest pf os p = Some (res, os') \<and>
    ((\<exists>err. pf_refuses pf os p err \<and> res = Inl err) \<or>
     (\<nexists>err. pf_refuses pf os p err) \<and> (\<exists>f. files os p = Some f \<and> res = ingest f)) \<and>
    handles os' = handles os \<and> pf_mem pf os' = pf_mem pf os"
proof -
  obtain ores os1 where mo: "mmap_open pf os p = Some (ores, os1)"
    using mmap_open_effect [of os p] by blast
  note E = mmap_open_effect [of os p]
  show ?thesis
  proof (cases ores)
    case (Inl err)
    with E mo show ?thesis by (auto simp: mmap_ingest_def ingest_def)
  next
    case (Inr r)
    from E mo Inr have ok: "\<nexists>e. pf_refuses pf os p e" by auto
    from Inr E mo obtain f body where f: "files os p = Some f" "parse_prologue f = Inr body"
      "mmap_inv (pf_mem pf os1) r" "mmap_rest (pf_mem pf os1) r = body"
      "mm_stats r = stats_zero" "\<not> mm_failed r" "mm_version r = kSupportedDbnVersion"
      and rel: "handles (snd (pf_release pf os1 (mm_map r))) = handles os"
      "pf_mem pf (snd (pf_release pf os1 (mm_map r))) = pf_mem pf os"
      by auto
    obtain r' where d: "drain (mmap_next (pf_mem pf os1)) r = Some (stream_events body, r')"
      "mm_stats r' = stream_stats stats_zero body" "mm_failed r' = stream_corrupt body"
      "mm_version r' = kSupportedDbnVersion"
      using mm.drain_ingest [OF f(3)] f by auto
    have "mm_map (snd (stream_events body, r')) = mm_map r"
      by (rule drain_keeps [where g = mm_map, OF _ d(1)]) (rule mmap_next_map)
    with mo Inr d f rel ok show ?thesis
      by (auto simp: mmap_ingest_def ingest_def)
  qed
qed

end

text \<open>The same facts for the two builds, and the sample file on the example system.\<close>

lemmas ingest_on = mapping_platform.mmap_ingest_ingest [OF supported_mapping_platform]

lemmas open_on = mapping_platform.mmap_open_effect [OF supported_mapping_platform]

lemma mmap_open_ex:
  assumes "files p = Some f" and "f \<noteq> []"
  shows "\<exists>os'. case parse_prologue f of
      Inl err \<Rightarrow> mmap_open (posix_platform ex_posix) (ex_start files) p = Some (Inl err, os')
    | Inr body \<Rightarrow> \<exists>r. mmap_open (posix_platform ex_posix) (ex_start files) p = Some (Inr r, os') \<and>
        mmap_inv (ex_mem os') r \<and> mmap_rest (ex_mem os') r = body \<and> mm_stats r = stats_zero \<and>
        \<not> mm_failed r \<and> mm_version r = kSupportedDbnVersion"
proof -
  obtain m os1 where "mf_open ex_posix (ex_start files) p = (Inr m, os1)"
    using assms by (simp add: mf_open_def ex_start_def ex_posix_def ex_open_def ex_fstat_def ex_mmap_def)
  then have "pf_open (posix_platform ex_posix) (ex_start files) p = (Inr m, os1)"
    by simp
  from mapping_platform.mmap_open_parses [OF supported_mapping_platform [OF ex_supported(1)] this, of f]
    assms(1) show ?thesis
    unfolding ex_files_start ex_posix_mem by (auto split: sum.splits)
qed

lemma mmap_open_sample:
  obtains r os' where "mmap_open (posix_platform ex_posix) (ex_start (\<lambda>_. Some sample_file)) p = Some (Inr r, os')"
proof -
  have "sample_file \<noteq> []"
    by (simp add: sample_file_def prologue_bytes_def)
  with mmap_open_ex [of "\<lambda>_. Some sample_file" p sample_file] parse_sample that show ?thesis
    by auto
qed

subsection \<open>Properties\<close>

text \<open>(C3) Mapped ingest is the same function of the file's bytes: when no system call that opens,
  measures or maps the file fails, the constructor, the loop and the accessors give \<open>ingest\<close> of the
  file, with no read outside the mapping and no endless loop; when one fails, and only then, the
  result is the exception for that call. With the reader gone every mapping and descriptor it took is
  given back, on every path.\<close>

theorem mmap_ingest_spec:
  assumes "supported_platform pf handles files"
  shows "\<exists>res os'. mmap_ingest pf os p = Some (res, os') \<and>
    ((\<exists>err. pf_refuses pf os p err \<and> res = Inl err) \<or>
     (\<nexists>err. pf_refuses pf os p err) \<and> (\<exists>f. files os p = Some f \<and> res = ingest f)) \<and>
    handles os' = handles os \<and> pf_mem pf os' = pf_mem pf os"
  using assms by (rule ingest_on)

theorem mmap_ingest_spec_witness:
  "\<exists>res os'. mmap_ingest (win_platform ex_win32) (ex_start (\<lambda>_. Some sample_file)) ''f'' = Some (Inr res, os') \<and>
    ig_events res = [sample_event] \<and> ex_mem os' = Map.empty"
  using mmap_ingest_spec [OF ex_supported(2), of "ex_start (\<lambda>_. Some sample_file)" "''f''"]
  by (auto simp: ex_accepts ex_files_start ex_mem_calls ex_mem_start ingest_def parse_sample sample_events)

text \<open>(C6) At every moment of every use of the mapped reader: the next call returns, the cursor is
  inside the file, the events so far are a prefix of the events of the file, the counters balance, and
  the failure flag is only set when the file is corrupt and all its events are out.\<close>

theorem mmap_reader_always:
  assumes "supported_platform pf handles files" and "mmap_open pf os p = Some (Inr r0, os')"
    and "pulls (mmap_next (pf_mem pf os')) r0 es r"
  shows "(\<exists>e r'. mmap_next (pf_mem pf os') r = Some (e, r')) \<and>
    (\<exists>f body. files os p = Some f \<and> parse_prologue f = Inr body \<and> prefix es (stream_events body) \<and>
       mf_bytes (pf_mem pf os') (mm_map r) \<noteq> None \<and>
       (mm_failed r \<longrightarrow> stream_corrupt body \<and> es = stream_events body)) \<and>
    mm_cursor r \<le> length (mmap_content (pf_mem pf os') r) \<and>
    stats_balanced (mm_stats r) \<and> st_events (mm_stats r) = of_nat (length es)"
proof -
  obtain f body where f: "files os p = Some f" "parse_prologue f = Inr body"
    "mmap_inv (pf_mem pf os') r0" "mmap_rest (pf_mem pf os') r0 = body"
    "mm_stats r0 = stats_zero" "\<not> mm_failed r0"
    using open_on [OF assms(1), of os p] assms(2) by auto
  note P = mm.pulls_prefix [OF assms(3) f(3) f(6) f(5)]
  from P have inv: "mmap_inv (pf_mem pf os') r"
    and body: "stream_events body = es @ stream_events (mmap_rest (pf_mem pf os') r)"
    using f(4) by auto
  have "prefix es (stream_events body)"
    unfolding body by simp
  moreover have "mm_failed r \<longrightarrow> stream_corrupt body \<and> es = stream_events body"
    using P body f(4) by auto
  moreover have "\<exists>e r'. mmap_next (pf_mem pf os') r = Some (e, r')"
    using mm.next_returns [OF inv] by blast
  moreover have "mf_bytes (pf_mem pf os') (mm_map r) \<noteq> None"
    and "mm_cursor r \<le> length (mmap_content (pf_mem pf os') r)"
    using inv by (auto simp: mmap_inv_def)
  ultimately show ?thesis using P f(1,2) by blast
qed

theorem mmap_reader_always_witness:
  "\<exists>r os' e r'. mmap_open (posix_platform ex_posix) (ex_start (\<lambda>_. Some sample_file)) ''f'' = Some (Inr r, os') \<and>
    mmap_next (ex_mem os') r = Some (e, r')"
proof -
  obtain r os' where r: "mmap_open (posix_platform ex_posix) (ex_start (\<lambda>_. Some sample_file)) ''f'' = Some (Inr r, os')"
    by (rule mmap_open_sample)
  have "sys_mem ex_posix = ex_mem"
    by (simp add: ex_posix_def)
  with mmap_reader_always [OF ex_supported(1) r pulls.none] r show ?thesis by auto
qed

text \<open>A constructor that throws takes nothing with it: when the prologue is refused after the
  file was mapped, the mapping is undone while the exception leaves, and the error is the one the
  prologue calls for.\<close>

lemma mmap_failed_construction:
  assumes "supported_platform pf handles files" and "mmap_open pf os p = Some (Inl err, os')"
  shows "handles os' = handles os \<and> pf_mem pf os' = pf_mem pf os \<and>
    (pf_refuses pf os p err \<or> (\<nexists>e. pf_refuses pf os p e) \<and>
     (\<exists>f. files os p = Some f \<and> parse_prologue f = Inl err))"
  using open_on [OF assms(1), of os p] assms(2) by auto

end
