(* ===== verification/FileOwnership.thy ===== *)
theory FileOwnership
  imports ExampleSystems
begin

text \<open>
  What a program can rely on when it creates, moves, assigns and destroys \<open>MemoryMappedFile\<close>
  objects in any order: no mapping is lost, freed twice or read after it is gone, and no descriptor
  stays open.
\<close>

lemma holds_live_bytes: "holds_live mem m \<Longrightarrow> mf_bytes mem m \<noteq> None"
  by (auto simp: holds_live_def mf_bytes_def span_simps split: option.splits)

text \<open>The facts of the contract, for the two builds.\<close>

lemmas life_on = mapping_platform.life_inv_life [OF supported_mapping_platform]

lemmas open_effect_on = mapping_platform.open_effect [OF supported_mapping_platform]

lemmas open_bytes_on = mapping_platform.open_bytes [OF supported_mapping_platform]

lemmas release_effect_on = mapping_platform.release_effect [OF supported_mapping_platform]

subsection \<open>A concrete run\<close>

text \<open>On the Windows build.\<close>

definition ex_platform :: "ex_os platform" where
  "ex_platform = win_platform ex_win32"

lemma ex_platform_supported: "supported_platform ex_platform (\<lambda>os. dom (ex_fds os)) ex_files"
  unfolding ex_platform_def by (rule ex_supported)

definition ex_world0 :: "ex_os world" where
  "ex_world0 = \<lparr> wo_os = ex_start (\<lambda>_. Some [1, 2, 3]), wo_objs = Map.empty \<rparr>"

definition ex_world1 :: "ex_os world" where
  "ex_world1 = wo_construct ex_platform 0 ''a'' ex_world0"

definition ex_world2 :: "ex_os world" where
  "ex_world2 = wo_construct ex_platform 1 ''b'' ex_world1"

lemmas ex_eval = ex_world0_def ex_world1_def ex_world2_def wo_construct_def ex_platform_def
  wf_open_def Let_def ex_start_def ex_win32_def ex_open_def ex_file_mapping_def ex_fstat_def ex_mmap_def

lemma ex_objs: "wo_objs ex_world2 = [0 \<mapsto> \<lparr> mf_data = Some 5, mf_size = 3 \<rparr>, 1 \<mapsto> \<lparr> mf_data = Some 8, mf_size = 3 \<rparr>]"
  by (simp add: ex_eval numeral_eq_Suc)

lemma ex_life1: "life ex_platform (ex_start (\<lambda>_. Some [1, 2, 3])) ex_world1"
  unfolding ex_world1_def ex_world0_def
  by (rule life.step [OF life.start life_step.construct]) simp

lemma ex_life: "life ex_platform (ex_start (\<lambda>_. Some [1, 2, 3])) ex_world2"
  unfolding ex_world2_def
  by (rule life.step [OF ex_life1 life_step.construct]) (simp add: ex_eval)

subsection \<open>Properties\<close>

text \<open>(C8) Ownership: whatever a program does with these objects, every object can be read through
  \<open>bytes()\<close> (it holds a live mapping of exactly the size it states, or none), no mapping has two
  owners, so none is unmapped twice, and none but the constructor that is running has a descriptor
  open.\<close>

theorem mappings_are_owned:
  assumes "supported_platform pf handles files" and "life pf os0 w"
  shows "(case wo_objs w i of None \<Rightarrow> True
      | Some m \<Rightarrow> mf_bytes (pf_mem pf (wo_os w)) m \<noteq> None \<and> holds_live (pf_mem pf (wo_os w)) m) \<and>
    (owns w i a \<and> owns w j a \<longrightarrow> i = j) \<and> handles (wo_os w) = handles os0"
proof -
  note D = life_invD [OF life_on [OF assms]]
  have "case wo_objs w i of None \<Rightarrow> True
      | Some m \<Rightarrow> mf_bytes (pf_mem pf (wo_os w)) m \<noteq> None \<and> holds_live (pf_mem pf (wo_os w)) m"
    using D(2) [of i] holds_live_bytes by (auto split: option.splits)
  then show ?thesis using D(1) D(3) [of i a j] by blast
qed

theorem mappings_are_owned_witness:
  "mf_bytes (ex_mem (wo_os ex_world2)) \<lparr> mf_data = Some 8, mf_size = 3 \<rparr> \<noteq> None"
proof -
  have "pf_mem ex_platform = ex_mem"
    by (simp add: ex_platform_def ex_win32_def)
  with mappings_are_owned [OF ex_platform_supported ex_life, of 1] show ?thesis
    by (simp add: ex_objs)
qed

text \<open>(C9) No leak: when every object is destroyed the process has exactly the mappings and the open
  descriptors it started with, whatever constructors failed, moves and assignments lay in between.\<close>

theorem nothing_leaks:
  assumes "supported_platform pf handles files" and "life pf os0 w" and "wo_objs w = Map.empty"
  shows "pf_mem pf (wo_os w) = pf_mem pf os0 \<and> handles (wo_os w) = handles os0"
proof -
  note D = life_invD [OF life_on [OF assms(1,2)]]
  have "\<nexists>i. owns w i a" for a
    using assms(3) by (simp add: owns_def)
  with D(1,4) show ?thesis by blast
qed

theorem nothing_leaks_witness:
  "\<exists>w. life ex_platform (ex_start (\<lambda>_. Some [1, 2, 3])) w \<and> wo_destroy ex_platform 0 ex_world1 = Some w \<and>
    ex_mem (wo_os w) = Map.empty"
proof -
  obtain w where w: "wo_destroy ex_platform 0 ex_world1 = Some w" "wo_objs w = Map.empty"
    by (auto simp: wo_destroy_def wf_release_def ex_eval)
  then have run: "life ex_platform (ex_start (\<lambda>_. Some [1, 2, 3])) w"
    using life.step [OF ex_life1 life_step.destroy] by blast
  have "ex_mem (wo_os w) = ex_mem (ex_start (\<lambda>_. Some [1, 2, 3]))"
    using nothing_leaks [OF ex_platform_supported run w(2)] by (simp add: ex_platform_def ex_win32_def)
  with w run show ?thesis by (auto simp: ex_start_def)
qed

text \<open>(C23) The constructor closes its descriptor on every path. It throws only when one of its system
  calls has failed, with the exception for that call, and has then mapped nothing; when none fails it
  returns, \<open>bytes()\<close> is the whole file and \<open>size()\<close> its length, and an empty file costs no mapping.\<close>

theorem mapped_file_construction:
  assumes "supported_platform pf handles files" and "pf_open pf os p = (res, os')"
  shows "handles os' = handles os \<and>
    (case res of
       Inl err \<Rightarrow> pf_refuses pf os p err \<and> err \<in> os_errors p \<and> pf_mem pf os' = pf_mem pf os
     | Inr m \<Rightarrow> (\<nexists>err. pf_refuses pf os p err) \<and> mf_bytes (pf_mem pf os') m = files os p \<and> files os p \<noteq> None \<and>
         map_option length (files os p) = Some (mf_length m) \<and>
         (files os p = Some [] \<longleftrightarrow> m = mf_empty))"
proof (cases res)
  case (Inl err)
  with open_effect_on [OF assms] show ?thesis by simp
next
  case (Inr m)
  with open_effect_on [OF assms] open_bytes_on [OF assms(1), of os p m os'] assms(2) show ?thesis
    by (auto simp: mf_empty_def mf_length_def)
qed

theorem mapped_file_construction_witness:
  "mf_bytes (ex_mem (snd (pf_open ex_platform (ex_start (\<lambda>_. Some [1, 2, 3])) ''a'')))
     \<lparr> mf_data = Some 5, mf_size = 3 \<rparr> = Some [1, 2, 3]"
  using mapped_file_construction [OF ex_platform_supported, of "ex_start (\<lambda>_. Some [1, 2, 3])" "''a''"
      "Inr \<lparr> mf_data = Some 5, mf_size = 3 \<rparr>"
      "snd (pf_open ex_platform (ex_start (\<lambda>_. Some [1, 2, 3])) ''a'')"]
  by (simp add: ex_eval)

text \<open>(C24) Move assignment hands over the source's file unchanged and leaves the source empty, and the
  mapping the target held before is unmapped; assigning an object to itself changes nothing.\<close>

theorem move_assign_transfers:
  assumes "supported_platform pf handles files" and "life pf os0 w"
    and "wo_objs w i = Some m" and "wo_objs w j = Some n"
  shows "\<exists>w'. wo_move_assign pf i j w = Some w' \<and>
    (if i = j then w' = w
     else wo_objs w' = (wo_objs w)(i \<mapsto> n, j \<mapsto> mf_empty) \<and>
       mf_bytes (pf_mem pf (wo_os w')) n = mf_bytes (pf_mem pf (wo_os w)) n \<and>
       (case mf_data m of None \<Rightarrow> True | Some a \<Rightarrow> pf_mem pf (wo_os w') a = None))"
proof (cases "i = j")
  case True
  with assms show ?thesis by (simp add: wo_move_assign_def)
next
  case False
  note D = life_invD [OF life_on [OF assms(1,2)]]
  obtain m' os' where rel: "pf_release pf (wo_os w) m = (m', os')" by fastforce
  note R = release_effect_on [OF assms(1) D(2) [OF assms(3)] rel]
  have "mf_data n \<noteq> Some a" if "mf_data m = Some a" for a
    using D(3) [of i a j] that assms(3,4) False by (auto simp: owns_def)
  then have "mf_bytes (pf_mem pf os') n = mf_bytes (pf_mem pf (wo_os w)) n"
    using R by (auto simp: mf_bytes_def split: option.splits)
  with False assms(3,4) rel R show ?thesis
    by (auto simp: wo_move_assign_def split: option.splits)
qed

theorem move_assign_transfers_witness:
  "\<exists>w'. wo_move_assign ex_platform 0 1 ex_world2 = Some w' \<and>
    wo_objs w' 0 = Some \<lparr> mf_data = Some 8, mf_size = 3 \<rparr> \<and> wo_objs w' 1 = Some mf_empty"
  using move_assign_transfers [OF ex_platform_supported ex_life, of 0 "\<lparr> mf_data = Some 5, mf_size = 3 \<rparr>"
      1 "\<lparr> mf_data = Some 8, mf_size = 3 \<rparr>"]
  by (auto simp: ex_objs)

end
