(* ===== verification/Fuzz.thy ===== *)
theory Fuzz
  imports Assembler Routing
begin

text \<open>
  The two fuzzers of the framer: the libFuzzer harness \<open>fuzz/frame_fuzz_libfuzzer.cpp\<close> and the
  portable one of \<open>tests/cpp/test_frame_fuzz.cpp\<close>. They search for an input on which framing
  reads out of bounds, contradicts its contract or spins; the theorems say that there is none.
\<close>

subsection \<open>The code\<close>

partial_function (option) fuzz_drain :: "assembler \<Rightarrow> unit option" where
  "fuzz_drain a = do {
     (p, a) \<leftarrow> asm_next a;
     if pl_status p \<noteq> PullRecord then Some ()
     else do {
       rcd \<leftarrow> view_bytes a (pl_record p);
       route_record rcd;
       fuzz_drain a
     }
   }"

declare fuzz_drain.simps [code]

definition LLVMFuzzerTestOneInput :: "bytes \<Rightarrow> int option" where
  "LLVMFuzzerTestOneInput data = do {
     a \<leftarrow> asm_append asm_empty data;
     fuzz_drain a;
     Some 0
   }"

text \<open>The checks of the portable fuzzer; the result is the code of the violated check.\<close>

definition check_frame_one :: "bytes \<Rightarrow> int option" where
  "check_frame_one buf = do {
     r \<leftarrow> frame_one buf;
     case fr_status r of
       FrameOk \<Rightarrow>
         if fr_record_size r < 4 then Some 1
         else if fr_record_size r mod 4 \<noteq> 0 then Some 2
         else if fr_record_size r > length buf then Some 3
         else do {
           len \<leftarrow> byte_at buf 0;
           if fr_record_size r \<noteq> size_mul (unat len) 4 then Some 4 else Some 0
         }
     | FrameNeedMore \<Rightarrow>
         if length buf \<ge> 2 then do {
           len \<leftarrow> byte_at buf 0;
           let sz = size_mul (unat len) 4;
           if sz \<noteq> 0 \<and> sz \<le> length buf then Some 5 else Some 0
         }
         else Some 0
     | FrameCorrupt \<Rightarrow>
         if buf = [] then Some 6
         else do {
           len \<leftarrow> byte_at buf 0;
           if len \<noteq> 0 then Some 7 else Some 0
         }
   }"

text \<open>One trial of the portable fuzzer's drain loop, which gives up after \<open>cap\<close> records.\<close>

partial_function (option) drain_trial_loop :: "nat \<Rightarrow> nat \<Rightarrow> assembler \<Rightarrow> int option" where
  "drain_trial_loop cap steps a = do {
     (p, a) \<leftarrow> asm_next a;
     if pl_status p \<noteq> PullRecord then Some 0
     else do {
       rcd \<leftarrow> view_bytes a (pl_record p);
       route_record rcd;
       let steps = steps + 1;
       if steps > cap then Some 20 else drain_trial_loop cap steps a
     }
   }"

declare drain_trial_loop.simps [code]

definition drain_trial :: "bytes \<Rightarrow> int option" where
  "drain_trial data = do {
     a \<leftarrow> asm_append asm_empty data;
     drain_trial_loop (length data + 16) 0 a
   }"

subsection \<open>The loops end\<close>

lemma fuzz_drain_returns: "asm_wf a \<Longrightarrow> fuzz_drain a = Some ()"
proof (induction "length (unread a)" arbitrary: a rule: less_induct)
  case less
  from less.prems show ?case
  proof (cases rule: asm_next_cases)
    case (pulled p a' rcd)
    then have "fuzz_drain a' = Some ()"
      using pulled(8) by (intro less.hyps) linarith+
    with pulled show ?thesis
      by (simp add: fuzz_drain.simps [of a] route_whole_record)
  qed (simp_all add: fuzz_drain.simps [of a])
qed

text \<open>Every record takes at least 4 bytes, so the cap is not reached.\<close>

lemma drain_trial_loop_ends:
  "asm_wf a \<Longrightarrow> 4 * steps + length (unread a) \<le> 4 * cap \<Longrightarrow> drain_trial_loop cap steps a = Some 0"
proof (induction "length (unread a)" arbitrary: a steps rule: less_induct)
  case less
  from less.prems(1) show ?case
  proof (cases rule: asm_next_cases)
    case (pulled p a' rcd)
    then have "4 * (steps + 1) + length (unread a') \<le> 4 * cap"
      using less.prems(2) pulled(8) by simp
    moreover have "drain_trial_loop cap (steps + 1) a' = Some 0"
      using calculation pulled(7,8) by (intro less.hyps) linarith+
    moreover have "\<not> cap < steps + 1"
      using calculation(1) by simp
    ultimately have "drain_trial_loop cap (steps + 1) a' = Some 0" "\<not> cap < steps + 1"
      by blast+
    with pulled show ?thesis
      by (simp add: drain_trial_loop.simps [of cap steps a] route_whole_record)
  qed (simp_all add: drain_trial_loop.simps [of cap steps a])
qed

subsection \<open>Properties\<close>

text \<open>(C31) Neither fuzzer can find anything, whatever the bytes. The libFuzzer harness accepts every
  input: draining the assembler returns, with no read outside a buffer in the framer, the assembler or
  the routing of any record. No check of the portable fuzzer's \<open>check_frame_one\<close> can fail, and none of
  its drains reaches the cap of records.\<close>

theorem fuzzers_find_nothing:
  "LLVMFuzzerTestOneInput data = Some 0 \<and> check_frame_one buf = Some 0 \<and> drain_trial data = Some 0"
proof (intro conjI)
  show "LLVMFuzzerTestOneInput data = Some 0"
    by (simp add: LLVMFuzzerTestOneInput_def asm_append_eq fuzz_drain_returns)
  show "check_frame_one buf = Some 0"
  proof (cases buf rule: front_cases)
    case short
    then show ?thesis
      by (cases buf) (auto simp: check_frame_one_def frame_one_short short_tail_def byte_at_def Let_def)
  next
    case corrupt
    then show ?thesis
      by (cases buf) (auto simp: check_frame_one_def frame_one_corrupt corrupt_tail_def byte_at_def)
  next
    case (whole rcd rest)
    have "rcd \<noteq> []" "length rcd = 4 * unat (rcd ! 0)"
      using whole(2) by (auto simp: whole_record_def hd_conv_nth)
    then show ?thesis
      using whole whole_record_bounds(1) [OF whole(2)]
      by (simp add: check_frame_one_def frame_one_whole byte_at_def nth_append)
  qed
  show "drain_trial data = Some 0"
    by (simp add: drain_trial_def asm_append_eq drain_trial_loop_ends)
qed

end
