(* ===== verification/Replay.thy ===== *)
theory Replay
  imports StreamReader Ingest
begin

text \<open>
  \<open>examples/replay_dbn.cpp\<close>: the driver that streams one file through the reader and reports it.
  A line of output is a datatype with the values that are printed, and \<open>render\<close> is its \<open>printf\<close>;
  the result is the lines on \<open>stdout\<close> and \<open>stderr\<close> in order and the exit code. The event count is a \<open>nat\<close>: an event takes
  56 bytes of a file, so it fits \<open>std::size_t\<close>.
\<close>

subsection \<open>The code\<close>

datatype out_line =
    UsageLine
  | VersionLine u8
  | FirstEventLine u8 u8 u64 int u32 u32 u64
  | TotalLine nat
  | StatsLine ingest_stats
  | EndedLine bool
  | ErrorLine string

definition first_event_line :: "event \<Rightarrow> out_line" where
  "first_event_line e =
     FirstEventLine (action_byte (ev_action e)) (side_byte (ev_side e)) (ev_order_id e)
       (sint (ev_price e)) (ev_size e) (ev_sequence e) (ev_ts_event e)"

partial_function (option) replay_loop ::
    "('r \<Rightarrow> (event option \<times> 'r) option) \<Rightarrow> nat \<Rightarrow> 'r \<Rightarrow> (out_line list \<times> nat \<times> 'r) option" where
  "replay_loop nxt count r = do {
     (e, r) \<leftarrow> nxt r;
     case e of
       None \<Rightarrow> Some ([], count, r)
     | Some ev \<Rightarrow> do {
         let out = (if count = 0 then [first_event_line ev] else []);
         (more_out, count, r) \<leftarrow> replay_loop nxt (count + 1) r;
         Some (out @ more_out, count, r)
       }
   }"

declare replay_loop.simps [code]

fun replay_main :: "file_system \<Rightarrow> path list \<Rightarrow> (out_line list \<times> int) option" where
  "replay_main fs [] = Some ([UsageLine], 2)"
| "replay_main fs (p # args) = do {
     res \<leftarrow> dbn_open fs p default_chunk_size;
     case res of
       Inl err \<Rightarrow> Some ([ErrorLine (what_stream err)], 1)
     | Inr reader \<Rightarrow> do {
         (out, count, reader') \<leftarrow> replay_loop (dbn_next file_read) 0 reader;
         Some (VersionLine (dbn_version reader) # out @
                 [TotalLine count, StatsLine (dbn_stats reader'), EndedLine (dbn_failed reader')],
               if dbn_failed reader' then 1 else 0)
       }
   }"

text \<open>What \<open>printf\<close> makes of a line. The usage line quotes \<open>argv[0]\<close>.\<close>

fun render :: "string \<Rightarrow> out_line \<Rightarrow> string" where
  "render prog UsageLine = ''usage: '' @ prog @ '' <file.dbn>'' @ [newline]"
| "render prog (VersionLine v) = ''DBN version : '' @ decimal (unat v) @ [newline]"
| "render prog (FirstEventLine a s oid price sz sq ts) =
     ''first event : action='' @ print_char a @ '' side='' @ print_char s @
     '' order_id='' @ decimal (unat oid) @ '' price='' @ decimal_int price @
     '' size='' @ decimal (unat sz) @ '' seq='' @ decimal (unat sq) @
     '' ts_event='' @ decimal (unat ts) @ [newline]"
| "render prog (TotalLine n) = ''total events: '' @ decimal n @ [newline]"
| "render prog (StatsLine st) =
     ''stats        : records='' @ decimal (unat (st_records st)) @
     '' events='' @ decimal (unat (st_events st)) @
     '' skip_non_mbo='' @ decimal (unat (st_skipped_non_mbo st)) @
     '' skip_malformed='' @ decimal (unat (st_skipped_malformed st)) @ [newline]"
| "render prog (EndedLine failed) =
     ''ended        : '' @ (if failed then ''CORRUPT (stopped on bad frame)'' else ''clean EOF'') @
     [newline]"
| "render prog (ErrorLine what) = ''replay_dbn error: '' @ what @ [newline]"

text \<open>Usage and errors go to \<open>stderr\<close>, the report to \<open>stdout\<close>.\<close>

fun on_stdout :: "out_line \<Rightarrow> bool" where
  "on_stdout UsageLine = False"
| "on_stdout (ErrorLine what) = False"
| "on_stdout line = True"

text \<open>The whole process, from \<open>argv\<close>. Without even a program name \<open>argv[0]\<close> is a null pointer.\<close>

fun replay_process :: "file_system \<Rightarrow> string list \<Rightarrow> process_result option" where
  "replay_process fs [] = None"
| "replay_process fs (prog # args) = do {
     (out, code) \<leftarrow> replay_main fs args;
     Some \<lparr> pr_stdout = concat (map (render prog) (filter on_stdout out)),
            pr_stderr = concat (map (render prog) (filter (Not \<circ> on_stdout) out)),
            pr_exit = code \<rparr>
   }"

subsection \<open>The loop over any reader\<close>

context pull_reader begin

lemma replay_loop_reports:
  assumes "inv r"
  shows "\<exists>r'. replay_loop nxt count r = Some
      (if count = 0 then map first_event_line (take 1 (stream_events (rest r))) else [],
       count + length (stream_events (rest r)), r') \<and>
    stats r' = stream_stats (stats r) (rest r) \<and> failed r' = (failed r \<or> stream_corrupt (rest r))"
  using assms
proof (induction "length (rest r)" arbitrary: r count rule: less_induct)
  case less
  obtain e r1 where nxt: "nxt r = Some (e, r1)"
    using next_returns [OF less.prems] by blast
  show ?case
  proof (cases e)
    case None
    with nxt next_NoneD [OF less.prems, of r1] show ?thesis
      by (simp add: replay_loop.simps [of nxt count r])
  next
    case (Some ev)
    note D = next_SomeD [OF less.prems, of ev r1]
    from Some nxt D have "length (rest r1) < length (rest r)" "inv r1" by auto
    note IH = less.hyps [OF this, of "count + 1"]
    from IH D Some nxt show ?thesis
      by (auto simp: replay_loop.simps [of nxt count r])
  qed
qed

end

lemma drain_default_chunk: "0 < default_chunk_size" "default_chunk_size \<le> vector_max_size"
  by (simp_all add: default_chunk_size_def)

subsection \<open>The report of a file\<close>

text \<open>The report that a file asks for: its contents are all it depends on.\<close>

definition replay_report :: "path \<Rightarrow> bytes option \<Rightarrow> out_line list \<times> int" where
  "replay_report p file =
     (case file of
        None \<Rightarrow> ([ErrorLine (''FileByteSource: cannot open '' @ p)], 1)
      | Some f \<Rightarrow>
          (case parse_prologue f of
             Inl err \<Rightarrow> ([ErrorLine (what_stream err)], 1)
           | Inr body \<Rightarrow>
               (VersionLine 1 # map first_event_line (take 1 (stream_events body)) @
                  [TotalLine (length (stream_events body)),
                   StatsLine (stream_stats stats_zero body), EndedLine (stream_corrupt body)],
                if stream_corrupt body then 1 else 0)))"

lemma replay_main_report:
  "replay_main fs args =
     Some (case args of [] \<Rightarrow> ([UsageLine], 2) | p # _ \<Rightarrow> replay_report p (fs p))"
proof (cases args)
  case (Cons p more_args)
  show ?thesis
  proof (cases "fs p")
    case None
    then show ?thesis
      using dbn_open_parses [OF drain_default_chunk, of fs p] Cons by (simp add: replay_report_def)
  next
    case (Some f)
    show ?thesis
    proof (cases "parse_prologue f")
      case (Inl err)
      then show ?thesis
        using dbn_open_parses [OF drain_default_chunk, of fs p] Cons Some
        by (simp add: replay_report_def)
    next
      case (Inr body)
      then obtain r where open_r: "dbn_open fs p default_chunk_size = Some (Inr r)" "stream_inv r"
        "stream_rest file_pending r = body" "rd_stats r = stats_zero" "\<not> rd_failed r"
        "rd_version r = kSupportedDbnVersion"
        using dbn_open_parses [OF drain_default_chunk, of fs p] Some by auto
      from fsrc.sr.replay_loop_reports [OF open_r(2), of 0] open_r Cons Some Inr show ?thesis
        by (auto simp: replay_report_def kSupportedDbnVersion_def)
    qed
  qed
qed simp

subsection \<open>The text gives the report back\<close>

lemma ends_number_simps [simp]:
  "ends_number []" "ends_number (c # cs) \<longleftrightarrow> \<not> is_digit c"
  by (simp_all add: ends_number_def)

lemma not_digit_separators [simp]:
  "\<not> is_digit CHR '' ''" "\<not> is_digit newline"
  by (simp_all add: is_digit_def)

lemma unat_inject_append:
  fixes a b :: "'a::len word"
  assumes "decimal (unat a) @ c # s = decimal (unat b) @ c # t" and "\<not> is_digit c"
  shows "a = b \<and> s = t"
  using decimal_inject_append [OF assms(1)] assms(2) by (auto simp: word_unat_eq_iff)

lemma print_char_append [simp]:
  "print_char a @ s = print_char b @ t \<longleftrightarrow> a = b \<and> s = t"
  using print_char_inject [of a b] by (auto simp: print_char_def)

lemma render_version: "render p (VersionLine v) = render p (VersionLine w) \<Longrightarrow> v = w"
  using unat_inject_append [of v newline "[]" w "[]"] by simp

lemma render_total: "render p (TotalLine m) = render p (TotalLine n) \<Longrightarrow> m = n"
  using decimal_inject_append [of m "[newline]" n "[newline]"] by simp

lemma render_ended: "render p (EndedLine b) = render p (EndedLine c) \<Longrightarrow> b = c"
  by (auto split: if_splits)

lemma render_stats:
  assumes "render p (StatsLine st) = render p (StatsLine st')"
  shows "st = st'"
proof -
  from assms have
    "decimal (unat (st_records st)) @ CHR '' '' # ''events='' @ decimal (unat (st_events st)) @
       CHR '' '' # ''skip_non_mbo='' @ decimal (unat (st_skipped_non_mbo st)) @
       CHR '' '' # ''skip_malformed='' @ decimal (unat (st_skipped_malformed st)) @ [newline] =
     decimal (unat (st_records st')) @ CHR '' '' # ''events='' @ decimal (unat (st_events st')) @
       CHR '' '' # ''skip_non_mbo='' @ decimal (unat (st_skipped_non_mbo st')) @
       CHR '' '' # ''skip_malformed='' @ decimal (unat (st_skipped_malformed st')) @ [newline]"
    by simp
  then have "st_records st = st_records st' \<and> st_events st = st_events st' \<and>
      st_skipped_non_mbo st = st_skipped_non_mbo st' \<and>
      st_skipped_malformed st = st_skipped_malformed st'"
    by (auto dest!: unat_inject_append simp: unat_inject)
  then show ?thesis by simp
qed

lemma render_first:
  assumes "render p (FirstEventLine a s oid price sz sq ts) =
    render p (FirstEventLine a' s' oid' price' sz' sq' ts')"
  shows "a = a' \<and> s = s' \<and> oid = oid' \<and> price = price' \<and> sz = sz' \<and> sq = sq' \<and> ts = ts'"
proof -
  from assms have as: "a = a'" "s = s'" and
    "decimal (unat oid) @ CHR '' '' # ''price='' @ decimal_int price @
       CHR '' '' # ''size='' @ decimal (unat sz) @ CHR '' '' # ''seq='' @ decimal (unat sq) @
       CHR '' '' # ''ts_event='' @ decimal (unat ts) @ [newline] =
     decimal (unat oid') @ CHR '' '' # ''price='' @ decimal_int price' @
       CHR '' '' # ''size='' @ decimal (unat sz') @ CHR '' '' # ''seq='' @ decimal (unat sq') @
       CHR '' '' # ''ts_event='' @ decimal (unat ts') @ [newline]"
    by simp_all
  from unat_inject_append [OF this(3)] have oid: "oid = oid'" and price: "decimal_int price @
       CHR '' '' # ''size='' @ decimal (unat sz) @ CHR '' '' # ''seq='' @ decimal (unat sq) @
       CHR '' '' # ''ts_event='' @ decimal (unat ts) @ [newline] =
     decimal_int price' @
       CHR '' '' # ''size='' @ decimal (unat sz') @ CHR '' '' # ''seq='' @ decimal (unat sq') @
       CHR '' '' # ''ts_event='' @ decimal (unat ts') @ [newline]"
    by simp_all
  from decimal_int_inject_append [OF price] have px: "price = price'" and
    "decimal (unat sz) @ CHR '' '' # ''seq='' @ decimal (unat sq) @
       CHR '' '' # ''ts_event='' @ decimal (unat ts) @ [newline] =
     decimal (unat sz') @ CHR '' '' # ''seq='' @ decimal (unat sq') @
       CHR '' '' # ''ts_event='' @ decimal (unat ts') @ [newline]"
    by simp_all
  then have "sz = sz' \<and> sq = sq' \<and> ts = ts'"
    by (auto dest!: unat_inject_append simp: unat_inject)
  with as oid px show ?thesis by blast
qed

lemma render_inject:
  assumes "on_stdout l" and "on_stdout l'" and "render p l = render p l'"
  shows "l = l'"
proof (cases l)
  case (FirstEventLine a s oid price sz sq ts)
  with assms show ?thesis using render_first by (cases l') (auto simp del: render.simps, auto)
next
  case (StatsLine st)
  with assms show ?thesis using render_stats by (cases l') (auto simp del: render.simps, auto)
qed (use assms render_version render_total render_ended in
     \<open>cases l'; auto simp del: render.simps; auto\<close>)+

text \<open>The lines of a report are lines of text.\<close>

fun report_line :: "out_line \<Rightarrow> bool" where
  "report_line (FirstEventLine a s oid price sz sq ts) = (newline \<notin> set (print_char a) \<and> newline \<notin> set (print_char s))"
| "report_line l = on_stdout l"

lemma newline_print_char:
  assumes "b \<noteq> 10"
  shows "newline \<notin> set (print_char b)"
proof -
  have "print_char 10 = [newline]" by code_simp
  moreover have "print_char b \<noteq> print_char 10" using assms by (simp only: print_char_inject) simp
  ultimately show ?thesis by (simp add: print_char_def)
qed

lemma report_line_first [simp]: "report_line (first_event_line e)"
  by (cases "ev_action e"; cases "ev_side e") (simp_all add: first_event_line_def newline_print_char)

lemma report_line_stdout: "report_line l \<Longrightarrow> on_stdout l"
  by (cases l) simp_all

lemma is_line_snoc: "newline \<notin> set z \<Longrightarrow> is_line (z @ [newline])"
  by (auto simp: is_line_def)

lemma is_line_render:
  assumes "report_line l"
  shows "is_line (render p l)"
proof -
  have "last (render p l) = newline \<and> newline \<notin> set (butlast (render p l)) \<and> render p l \<noteq> []"
    using assms by (cases l) (simp_all add: butlast_append)
  then show ?thesis
    using is_line_snoc [of "butlast (render p l)"] append_butlast_last_id [of "render p l"] by simp
qed

lemma render_lines_inject:
  assumes "list_all report_line ls" and "list_all report_line ls'"
    and "concat (map (render p) ls) = concat (map (render p) ls')"
  shows "ls = ls'"
proof -
  have "map (render p) ls = map (render p) ls'"
    using assms by (intro concat_lines_inject) (auto simp: list_all_iff is_line_render)
  moreover have "inj_on (render p) (set ls \<union> set ls')"
    using assms(1,2) render_inject [of _ _ p] report_line_stdout
    by (auto simp: inj_on_def list_all_iff)
  ultimately show ?thesis by (rule map_inj_on)
qed

text \<open>The report of a file with a valid prologue.\<close>

definition body_report :: "bytes \<Rightarrow> out_line list" where
  "body_report body = VersionLine 1 # map first_event_line (take 1 (stream_events body)) @
     [TotalLine (length (stream_events body)), StatsLine (stream_stats stats_zero body),
      EndedLine (stream_corrupt body)]"

lemma body_report_lines: "list_all report_line (body_report body)"
  by (cases "stream_events body") (simp_all add: body_report_def)

lemma body_report_inject:
  assumes "body_report b = body_report b'"
  shows "map first_event_line (take 1 (stream_events b)) = map first_event_line (take 1 (stream_events b')) \<and>
    length (stream_events b) = length (stream_events b') \<and>
    stream_stats stats_zero b = stream_stats stats_zero b' \<and> stream_corrupt b = stream_corrupt b'"
  using assms unfolding body_report_def
  by (cases "stream_events b"; cases "stream_events b'") (auto simp: first_event_line_def)

lemma body_report_stdout:
  "filter on_stdout (body_report body) = body_report body"
  "filter (Not \<circ> on_stdout) (body_report body) = []"
  using body_report_lines [of body] report_line_stdout
  by (auto simp: list_all_iff filter_id_conv filter_empty_conv)

lemma replay_process_valid:
  assumes "fs p = Some f" and "parse_prologue f = Inr body"
  shows "replay_process fs (prog # p # args) = Some
    \<lparr> pr_stdout = concat (map (render prog) (body_report body)), pr_stderr = [],
      pr_exit = if stream_corrupt body then 1 else 0 \<rparr>"
proof -
  have "replay_main fs (p # args) =
      Some (body_report body, if stream_corrupt body then 1 else 0)"
    using assms by (simp add: replay_main_report replay_report_def body_report_def)
  then show ?thesis
    by (simp add: body_report_stdout)
qed

declare replay_process.simps [simp del]

subsection \<open>The text of a report\<close>

text \<open>What the driver prints of a file, written out from its events: the letters of the enumerators, the
  fields of the first event, and the whole report.\<close>

fun action_letter :: "action \<Rightarrow> char" where
  "action_letter Add = CHR ''A''"
| "action_letter Cancel = CHR ''C''"
| "action_letter Modify = CHR ''M''"
| "action_letter Trade = CHR ''T''"
| "action_letter Fill = CHR ''F''"
| "action_letter Clear = CHR ''R''"

fun side_letter :: "side \<Rightarrow> char" where
  "side_letter Bid = CHR ''B''"
| "side_letter Ask = CHR ''A''"
| "side_letter NoSide = CHR ''N''"

fun first_event_text :: "event list \<Rightarrow> string" where
  "first_event_text [] = []"
| "first_event_text (e # _) =
     ''first event : action='' @ [action_letter (ev_action e)] @
     '' side='' @ [side_letter (ev_side e)] @
     '' order_id='' @ decimal (unat (ev_order_id e)) @
     '' price='' @ decimal_int (sint (ev_price e)) @
     '' size='' @ decimal (unat (ev_size e)) @
     '' seq='' @ decimal (unat (ev_sequence e)) @
     '' ts_event='' @ decimal (unat (ev_ts_event e)) @ [newline]"

definition replay_text :: "bytes \<Rightarrow> string" where
  "replay_text body =
     (let st = stream_stats stats_zero body in
        ''DBN version : 1'' @ [newline] @
        first_event_text (stream_events body) @
        ''total events: '' @ decimal (length (stream_events body)) @ [newline] @
        ''stats        : records='' @ decimal (unat (st_records st)) @
        '' events='' @ decimal (unat (st_events st)) @
        '' skip_non_mbo='' @ decimal (unat (st_skipped_non_mbo st)) @
        '' skip_malformed='' @ decimal (unat (st_skipped_malformed st)) @ [newline] @
        (if stream_corrupt body then ''ended        : CORRUPT (stopped on bad frame)''
         else ''ended        : clean EOF'') @ [newline])"

lemma print_char_literal: "print_char (chr c) = [c]"
proof -
  have "unat (chr c) = of_char c"
    using unat_of_nat [of "of_char c", where 'a = 8] by (simp add: of_nat_of_char)
  then show ?thesis by (simp add: print_char_def)
qed

lemma print_letters:
  "print_char (action_byte a) = [action_letter a]" "print_char (side_byte s) = [side_letter s]"
  using print_char_literal
  by (cases a; simp only: action_byte.simps action_letter.simps)
    (use print_char_literal in \<open>cases s; simp only: side_byte.simps side_letter.simps\<close>)

lemma decimal_one: "decimal 1 = ''1''"
  by code_simp

lemma render_body_report: "concat (map (render prog) (body_report body)) = replay_text body"
  using decimal_one
  by (cases "stream_events body")
    (simp_all add: body_report_def replay_text_def first_event_line_def print_letters Let_def)

text \<open>The fields of the first event that are printed.\<close>

definition printed_fields :: "event \<Rightarrow> action \<times> side \<times> u64 \<times> i64 \<times> u32 \<times> u32 \<times> u64" where
  "printed_fields e = (ev_action e, ev_side e, ev_order_id e, ev_price e, ev_size e, ev_sequence e, ev_ts_event e)"

lemma first_event_line_eq: "first_event_line e = first_event_line e' \<longleftrightarrow> printed_fields e = printed_fields e'"
  by (auto simp: first_event_line_def printed_fields_def signed_word_eqI)

subsection \<open>Properties\<close>

text \<open>(C28) The driver is a total function of the files and its arguments: without an argument it
  prints the usage and exits with 2; when the file cannot be opened or has no valid prologue it prints
  nothing but the error, on \<open>stderr\<close>, and exits with 1; otherwise it prints, byte for byte, the version,
  seven fields of the first event, the number of events, the counters and how the stream ended, and
  exits with 1 exactly when the stream ended in a corrupt frame.\<close>

theorem replay_reports_file:
  "replay_process fs (prog # args) = Some
     (case args of
        [] \<Rightarrow> \<lparr> pr_stdout = [], pr_stderr = ''usage: '' @ prog @ '' <file.dbn>'' @ [newline], pr_exit = 2 \<rparr>
      | p # _ \<Rightarrow>
          (case fs p of
             None \<Rightarrow> \<lparr> pr_stdout = [],
               pr_stderr = ''replay_dbn error: FileByteSource: cannot open '' @ p @ [newline],
               pr_exit = 1 \<rparr>
           | Some f \<Rightarrow>
               (case parse_prologue f of
                  Inl err \<Rightarrow> \<lparr> pr_stdout = [],
                    pr_stderr = ''replay_dbn error: '' @ what_stream err @ [newline], pr_exit = 1 \<rparr>
                | Inr body \<Rightarrow> \<lparr> pr_stdout = replay_text body, pr_stderr = [], pr_exit = if stream_corrupt body then 1 else 0 \<rparr>)))"
proof (cases args)
  case (Cons p more_args)
  show ?thesis
  proof (cases "fs p")
    case None
    with Cons show ?thesis
      by (simp add: replay_process.simps replay_main_report replay_report_def)
  next
    case (Some f)
    with Cons show ?thesis
      by (cases "parse_prologue f")
        (simp_all add: replay_process_valid render_body_report,
          simp add: replay_process.simps replay_main_report replay_report_def)
  qed
qed (simp add: replay_process.simps replay_main_report)

text \<open>(C29) The printed report can be trusted: when two runs print the same report, their files agree in
  the number of events, in all four counters, in how the stream ended and in the action, side, order
  id, price, size, sequence and timestamp of the first event. No number runs into the next one and no two values are printed alike.\<close>

theorem replay_output_faithful:
  assumes "fs p = Some f" and "parse_prologue f = Inr body"
    and "fs' p' = Some f'" and "parse_prologue f' = Inr body'"
    and "replay_process fs [prog, p] = Some r" and "replay_process fs' [prog, p'] = Some r'"
    and "pr_stdout r = pr_stdout r'"
  shows "length (stream_events body) = length (stream_events body') \<and>
    stream_stats stats_zero body = stream_stats stats_zero body' \<and>
    stream_corrupt body = stream_corrupt body' \<and> pr_exit r = pr_exit r' \<and>
    map printed_fields (take 1 (stream_events body)) =
      map printed_fields (take 1 (stream_events body'))"
proof -
  have r: "pr_stdout r = concat (map (render prog) (body_report body))"
    "pr_exit r = (if stream_corrupt body then 1 else 0)"
    using assms(5) replay_process_valid [of fs p f body prog "[]"] assms(1,2) by auto
  have r': "pr_stdout r' = concat (map (render prog) (body_report body'))"
    "pr_exit r' = (if stream_corrupt body' then 1 else 0)"
    using assms(6) replay_process_valid [of fs' p' f' body' prog "[]"] assms(3,4) by auto
  have "body_report body = body_report body'"
    using assms(7) unfolding r(1) r'(1)
    by (rule render_lines_inject [OF body_report_lines body_report_lines])
  note B = body_report_inject [OF this]
  then have "map printed_fields (take 1 (stream_events body)) = map printed_fields (take 1 (stream_events body'))"
    by (cases "stream_events body"; cases "stream_events body'") (simp_all add: first_event_line_eq)
  with B r(2) r'(2) show ?thesis by simp
qed

theorem replay_output_faithful_witness:
  "stream_stats stats_zero (feed_bytes [Quote 1 2 3 4 sample_event]) =
   stream_stats stats_zero (feed_bytes [Quote 5 6 7 8 (sample_event\<lparr>ev_flags := 1\<rparr>)])"
proof -
  let ?b = "feed_bytes [Quote 1 2 3 4 sample_event]"
  let ?c = "feed_bytes [Quote 5 6 7 8 (sample_event\<lparr>ev_flags := 1\<rparr>)]"
  let ?f = "prologue_bytes [] @ ?b"
  let ?g = "prologue_bytes [1, 2] @ ?c"
  have tail: "short_tail []" by (simp add: short_tail_def)
  have "body_report ?b = body_report ?c"
    using split_feed [of "[Quote 1 2 3 4 sample_event]" "[]"]
      split_feed [of "[Quote 5 6 7 8 (sample_event\<lparr>ev_flags := 1\<rparr>)]" "[]"] tail
    by (simp add: body_report_def first_event_line_def stream_events_def stream_stats_def stream_corrupt_def
        routing_item [of "Quote _ _ _ _ _", simplified] map_filter_def event_of_def)
  then have "concat (map (render ''replay_dbn'') (body_report ?b)) =
      concat (map (render ''replay_dbn'') (body_report ?c))" by simp
  then show ?thesis
    using replay_output_faithful [of "\<lambda>_. Some ?f" "''f''" ?f ?b "\<lambda>_. Some ?g" "''g''" ?g ?c "''replay_dbn''"]
      replay_process_valid [of "\<lambda>_. Some ?f" "''f''" ?f ?b "''replay_dbn''" "[]"]
      replay_process_valid [of "\<lambda>_. Some ?g" "''g''" ?g ?c "''replay_dbn''" "[]"]
    by (simp add: parse_prologue_bytes)
qed

end
