(* ===== verification/BenchModes.thy ===== *)
theory BenchModes
  imports StreamIngest MmapReader Feed ExampleSystems
begin

text \<open>
  \<open>bench/bench_dbn.cpp\<close>, the three modes: the streaming reader, the assembler over the file in
  memory, and the mapped reader, each run a number of times over the same file. The clock is a
  parameter. An exception is the message its handler prints.
\<close>

subsection \<open>The in-memory source\<close>

definition slurp :: "file_system \<Rightarrow> path \<Rightarrow> string + bytes" where
  "slurp fs p =
     (case fs p of
        None \<Rightarrow> Inl (''bench_dbn: cannot open '' @ p)
      | Some buf \<Rightarrow> Inr buf)"

definition bench_bad_magic :: string where
  "bench_bad_magic = ''bench_dbn: not a DBN stream (bad magic)''"

definition record_start :: "bytes \<Rightarrow> (string + nat) option" where
  "record_start f =
     (if length f < 8 then Some (Inl bench_bad_magic)
      else do {
        f0 \<leftarrow> byte_at f 0;
        f1 \<leftarrow> byte_at f 1;
        f2 \<leftarrow> byte_at f 2;
        if f0 \<noteq> chr CHR ''D'' \<or> f1 \<noteq> chr CHR ''B'' \<or> f2 \<noteq> chr CHR ''N''
        then Some (Inl bench_bad_magic)
        else do {
          word \<leftarrow> span_slice 4 4 f;
          let metadata_len = (le_word word :: u32);
          Some (Inr (size_add 8 (unat metadata_len)))
        }
      })"

subsection \<open>The three modes\<close>

record 'd bench_stats =
  bs_events :: nat
  bs_record_bytes :: nat
  bs_pass_ns :: "'d list"

definition bench_zero :: "'d bench_stats" where
  "bench_zero = \<lparr> bs_events = 0, bs_record_bytes = 0, bs_pass_ns = [] \<rparr>"

text \<open>The end of a pass, which stores \<open>ns / events\<close>: \<open>time i n\<close> is this quotient for pass \<open>i\<close> with \<open>n\<close>
  events, and the passes are numbered by what is stored already.\<close>

definition finish_pass :: "(nat \<Rightarrow> nat \<Rightarrow> 'd) \<Rightarrow> 'd bench_stats \<Rightarrow> nat \<Rightarrow> 'd bench_stats" where
  "finish_pass time s events =
     s\<lparr>bs_events := events,
       bs_pass_ns := bs_pass_ns s @ [time (length (bs_pass_ns s)) events]\<rparr>"

partial_function (option) count_events ::
    "('r \<Rightarrow> (event option \<times> 'r) option) \<Rightarrow> nat \<Rightarrow> 'r \<Rightarrow> (nat \<times> 'r) option" where
  "count_events nxt events r = do {
     (e, r) \<leftarrow> nxt r;
     case e of
       None \<Rightarrow> Some (events, r)
     | Some ev \<Rightarrow> count_events nxt (events + 1) r
   }"

declare count_events.simps [code]

fun bench_end_to_end ::
    "(nat \<Rightarrow> nat \<Rightarrow> 'd) \<Rightarrow> file_system \<Rightarrow> path \<Rightarrow> nat \<Rightarrow> nat \<Rightarrow> 'd bench_stats \<Rightarrow>
      (string + 'd bench_stats) option" where
  "bench_end_to_end time fs p chunk 0 s = Some (Inr s)"
| "bench_end_to_end time fs p chunk (Suc passes) s = do {
     res \<leftarrow> dbn_open fs p chunk;
     case res of
       Inl err \<Rightarrow> Some (Inl (what_stream err))
     | Inr reader \<Rightarrow> do {
         (events, reader) \<leftarrow> count_events (dbn_next file_read) 0 reader;
         bench_end_to_end time fs p chunk passes (finish_pass time s events)
       }
   }"

text \<open>One pass over the records in memory, fed to the assembler in slices of the chunk size.\<close>

partial_function (option) in_memory_pass ::
    "bytes \<Rightarrow> nat \<Rightarrow> assembler \<Rightarrow> nat \<Rightarrow> nat \<Rightarrow> nat \<Rightarrow> (nat \<times> nat) option" where
  "in_memory_pass records chunk a events rbytes offset = do {
     (p, a) \<leftarrow> asm_next a;
     if pl_status p = PullRecord then do {
       rcd \<leftarrow> view_bytes a (pl_record p);
       routed \<leftarrow> route_record rcd;
       let events = (case routed of Emit ev \<Rightarrow> events + 1 | _ \<Rightarrow> events);
       in_memory_pass records chunk a events (rbytes + vw_len (pl_record p)) offset
     }
     else if pl_status p = PullCorrupt then Some (events, rbytes)
     else if offset \<ge> length records then Some (events, rbytes)
     else do {
       let n = min chunk (length records - offset);
       slice \<leftarrow> span_slice offset n records;
       a \<leftarrow> asm_append a slice;
       in_memory_pass records chunk a events rbytes (offset + n)
     }
   }"

declare in_memory_pass.simps [code]

fun in_memory_passes ::
    "(nat \<Rightarrow> nat \<Rightarrow> 'd) \<Rightarrow> bytes \<Rightarrow> nat \<Rightarrow> nat \<Rightarrow> 'd bench_stats \<Rightarrow> 'd bench_stats option" where
  "in_memory_passes time records chunk 0 s = Some s"
| "in_memory_passes time records chunk (Suc passes) s = do {
     (events, rbytes) \<leftarrow> in_memory_pass records chunk asm_empty 0 0 0;
     in_memory_passes time records chunk passes (finish_pass time s events\<lparr>bs_record_bytes := rbytes\<rparr>)
   }"

definition bench_in_memory ::
    "(nat \<Rightarrow> nat \<Rightarrow> 'd) \<Rightarrow> bytes \<Rightarrow> nat \<Rightarrow> nat \<Rightarrow> (string + 'd bench_stats) option" where
  "bench_in_memory time f chunk passes = do {
     start \<leftarrow> record_start f;
     case start of
       Inl err \<Rightarrow> Some (Inl err)
     | Inr start \<Rightarrow> do {
         records \<leftarrow> span_subspan start f;
         s \<leftarrow> in_memory_passes time records chunk passes bench_zero;
         Some (Inr s)
       }
   }"

text \<open>Every pass maps the file anew; the mapping goes with the reader at the end of the pass.\<close>

fun bench_mmap ::
    "(nat \<Rightarrow> nat \<Rightarrow> 'd) \<Rightarrow> 'os platform \<Rightarrow> 'os \<Rightarrow> path \<Rightarrow> nat \<Rightarrow> 'd bench_stats \<Rightarrow>
      ((string + 'd bench_stats) \<times> 'os) option" where
  "bench_mmap time pf os p 0 s = Some (Inr s, os)"
| "bench_mmap time pf os p (Suc passes) s = do {
     (res, os) \<leftarrow> mmap_open pf os p;
     case res of
       Inl err \<Rightarrow> Some (Inl (what_mmap err), os)
     | Inr reader \<Rightarrow> do {
         (events, reader) \<leftarrow> count_events (mmap_next (pf_mem pf os)) 0 reader;
         let os = snd (pf_release pf os (mm_map reader));
         bench_mmap time pf os p passes (finish_pass time s events)
       }
   }"

subsection \<open>What the modes count\<close>

context pull_reader begin

lemma count_events_counts:
  assumes "inv r"
  shows "\<exists>r'. count_events nxt n r = Some (n + length (stream_events (rest r)), r')"
  using assms
proof (induction "length (rest r)" arbitrary: r n rule: less_induct)
  case less
  obtain e r1 where nxt: "nxt r = Some (e, r1)"
    using next_returns [OF less.prems] by blast
  show ?case
  proof (cases e)
    case None
    with nxt next_NoneD [OF less.prems, of r1] show ?thesis
      by (simp add: count_events.simps [of nxt n r])
  next
    case (Some ev)
    note D = next_SomeD [OF less.prems, of ev r1]
    from Some nxt D have "length (rest r1) < length (rest r)" "inv r1" by auto
    from less.hyps [OF this, of "n + 1"] D Some nxt show ?thesis
      by (auto simp: count_events.simps [of nxt n r])
  qed
qed

end

lemma count_events_keeps:
  assumes keeps: "\<And>r y. nxt r = Some y \<Longrightarrow> g (snd y) = g r"
    and run: "count_events nxt n r = Some y"
  shows "g (snd y) = g r"
proof -
  have "(\<forall>r y. nxt r = Some y \<longrightarrow> g (snd y) = g r) \<longrightarrow> g (snd y) = g r"
  proof (rule count_events.raw_induct [where P = "\<lambda>nxt n r y.
      (\<forall>r y. nxt r = Some y \<longrightarrow> g (snd y) = g r) \<longrightarrow> g (snd y) = g r", OF _ run], goal_cases)
    case (1 ce nxt n r y)
    from 1(2) obtain e r1 where nxt: "nxt r = Some (e, r1)"
      by (auto simp: bind_eq_Some_conv)
    with 1(2) have "e = None \<and> y = (n, r1) \<or> ce nxt (n + 1) r1 = Some y"
      by (auto split: option.splits)
    with 1(1) nxt show ?case by fastforce
  qed
  with keeps show ?thesis by blast
qed

text \<open>What \<open>passes\<close> more passes with \<open>n\<close> events each store.\<close>

fun passed :: "(nat \<Rightarrow> nat \<Rightarrow> 'd) \<Rightarrow> nat \<Rightarrow> nat \<Rightarrow> 'd bench_stats \<Rightarrow> 'd bench_stats" where
  "passed time n 0 s = s"
| "passed time n (Suc passes) s = passed time n passes (finish_pass time s n)"

lemma finish_pass_fields [simp]:
  "bs_events (finish_pass time s n) = n"
  "bs_record_bytes (finish_pass time s n) = bs_record_bytes s"
  "bs_pass_ns (finish_pass time s n) = bs_pass_ns s @ [time (length (bs_pass_ns s)) n]"
  by (simp_all add: finish_pass_def)

lemma passed_fields [simp]:
  "bs_events (passed time n passes s) = (if passes = 0 then bs_events s else n)"
  "bs_record_bytes (passed time n passes s) = bs_record_bytes s"
  "bs_pass_ns (passed time n passes s) = bs_pass_ns s @
     map (\<lambda>i. time i n) [length (bs_pass_ns s) ..< length (bs_pass_ns s) + passes]"
proof (induction passes arbitrary: s)
  case (Suc passes)
  {
    case 3
    with Suc(3) show ?case
      by (simp add: upt_conv_Cons del: upt_Suc)
  }
qed (simp_all)

lemma passed_record_bytes:
  "passed time n passes (s\<lparr>bs_record_bytes := m\<rparr>) = (passed time n passes s)\<lparr>bs_record_bytes := m\<rparr>"
  by (induction passes arbitrary: s) (simp_all add: finish_pass_def)

lemma bench_end_to_end_counts:
  assumes "0 < chunk" and "chunk \<le> vector_max_size" and "fs p = Some f" and "parse_prologue f = Inr body"
  shows "bench_end_to_end time fs p chunk passes s =
    Some (Inr (passed time (length (stream_events body)) passes s))"
proof (induction passes arbitrary: s)
  case (Suc passes)
  obtain r where r: "dbn_open fs p chunk = Some (Inr r)" "stream_inv r"
    "stream_rest file_pending r = body"
    using dbn_open_parses [OF assms(1,2), of fs p] assms(3,4) by auto
  obtain r' where "count_events (dbn_next file_read) 0 r = Some (length (stream_events body), r')"
    using fsrc.sr.count_events_counts [OF r(2), of 0] r(3) by auto
  with r Suc show ?case by simp
qed simp

lemma bench_end_to_end_error:
  assumes "0 < chunk" and "chunk \<le> vector_max_size" and "fs p = Some f" and "parse_prologue f = Inl err"
  shows "bench_end_to_end time fs p chunk (Suc passes) s = Some (Inl (what_stream err))"
  using dbn_open_parses [OF assms(1,2), of fs p] assms(3,4) by simp

lemma record_start_parsed:
  assumes "parse_prologue f = Inr body"
  shows "record_start f = Some (Inr (8 + metadata_length f)) \<and>
    span_subspan (8 + metadata_length f) f = Some body"
proof -
  have f: "8 \<le> length f" "8 + metadata_length f \<le> length f"
    "take 3 f = [chr CHR ''D'', chr CHR ''B'', chr CHR ''N'']"
    "body = drop (8 + metadata_length f) f"
    using assms by (auto simp: parse_prologue_def split: if_splits)
  have "byte_at f 0 = Some (f ! 0)" "byte_at f 1 = Some (f ! 1)" "byte_at f 2 = Some (f ! 2)"
    "span_slice 4 4 f = Some (take 4 (drop 4 f))"
    using f(1) by (auto simp: byte_at_def span_slice_def)
  moreover have "(le_word (take 4 (drop 4 f)) :: u32) = load_field 4 4 f"
    by (simp add: load_field_def)
  ultimately show ?thesis
    using f(1,2,3) take3_magic [OF f(1)] unfolding f(4)
    by (auto simp: record_start_def metadata_length_def Let_def span_simps)
qed

lemma in_memory_pass_counts:
  assumes "0 < chunk" and "asm_wf a" and "offset \<le> length records"
  shows "in_memory_pass records chunk a events rbytes offset =
    Some (events + length (stream_events (unread a @ drop offset records)),
          rbytes + length (concat (fst (split_records (unread a @ drop offset records)))))"
  using assms(2,3)
proof (induction "length (unread a) + 2 * (length records - offset)"
    arbitrary: a events rbytes offset rule: less_induct)
  case less
  from less.prems(1) show ?case
  proof (cases rule: asm_next_cases)
    case (pulled p a' rcd)
    have "length (unread a') + 2 * (length records - offset) <
        length (unread a) + 2 * (length records - offset)"
      using pulled(8) by simp
    note IH = less.hyps [OF this pulled(7) less.prems(2)]
    show ?thesis
      using pulled IH by (cases "routing rcd")
        (simp_all add: in_memory_pass.simps [of records chunk a events rbytes offset]
          route_whole_record stream_whole split_records_whole event_of_def)
  next
    case (need_more p)
    show ?thesis
    proof (cases "offset \<ge> length records")
      case True
      with need_more show ?thesis
        by (simp add: in_memory_pass.simps [of records chunk a events rbytes offset])
    next
      case False
      let ?n = "min chunk (length records - offset)"
      let ?a = "\<lparr> as_buf = unread a @ take ?n (drop offset records), as_read_pos = 0 \<rparr>"
      have "offset + ?n \<le> length records"
        using False by linarith
      then have step: "in_memory_pass records chunk a events rbytes offset =
          in_memory_pass records chunk ?a events rbytes (offset + ?n)"
        using need_more False less.prems(1)
        by (simp add: in_memory_pass.simps [of records chunk a events rbytes offset]
            span_slice_def asm_append_eq Let_def)
      have "unread ?a @ drop (offset + ?n) records = unread a @ drop offset records"
        by (metis append.assoc append_fresh(2) append_take_drop_id drop_drop add.commute)
      moreover have "length (unread ?a) + 2 * (length records - (offset + ?n)) <
          length (unread a) + 2 * (length records - offset)" and "offset + ?n \<le> length records"
        using False assms(1) by (auto simp: min_def)
      ultimately show ?thesis
        using less.hyps [of ?a "offset + ?n" events rbytes] step by simp
    qed
  next
    case (corrupt p)
    with corrupt_tail_append [OF corrupt(3), of "drop offset records"] show ?thesis
      by (simp add: in_memory_pass.simps [of records chunk a events rbytes offset])
  qed
qed

lemma in_memory_passes_counts:
  assumes "0 < chunk"
  shows "in_memory_passes time records chunk passes s = Some
    (if passes = 0 then s
     else (passed time (length (stream_events records)) passes s)\<lparr>bs_record_bytes :=
       length (concat (fst (split_records records)))\<rparr>)"
proof (induction passes arbitrary: s)
  case (Suc passes)
  then show ?case
    by (cases "passes = 0") (simp_all add: in_memory_pass_counts [OF assms] passed_record_bytes)
qed simp

lemmas mmap_open_on = mapping_platform.mmap_open_effect [OF supported_mapping_platform]

text \<open>What the mapped mode finds: the system as some passes leave it that mapped the file and gave it
  back, and a pass to which the system then refuses the mapping.\<close>

fun mapped_passes :: "'os platform \<Rightarrow> path \<Rightarrow> nat \<Rightarrow> 'os \<Rightarrow> 'os" where
  "mapped_passes pf p 0 os = os"
| "mapped_passes pf p (Suc k) os =
     (case mmap_open pf os p of
        Some (Inr r, os') \<Rightarrow> mapped_passes pf p k (snd (pf_release pf os' (mm_map r)))
      | _ \<Rightarrow> os)"

definition pass_refused :: "'os platform \<Rightarrow> path \<Rightarrow> nat \<Rightarrow> 'os \<Rightarrow> dbn_error \<Rightarrow> bool" where
  "pass_refused pf p passes os err \<longleftrightarrow> (\<exists>k < passes. pf_refuses pf (mapped_passes pf p k os) p err)"

lemma mapped_passes_add:
  "mapped_passes pf p (j + k) os = mapped_passes pf p k (mapped_passes pf p j os)"
proof (induction j arbitrary: os)
  case (Suc j)
  show ?case
  proof (cases "\<exists>r os'. mmap_open pf os p = Some (Inr r, os')")
    case True
    with Suc show ?thesis by auto
  next
    case False
    then have "mapped_passes pf p (Suc n) os = os" for n
      by (auto split: option.splits prod.splits sum.splits)
    then show ?thesis
      by (cases k) (simp_all del: mapped_passes.simps(2))
  qed
qed simp

lemma pass_refused_add:
  "pass_refused pf p (j + k) os err \<longleftrightarrow>
    pass_refused pf p j os err \<or> pass_refused pf p k (mapped_passes pf p j os) err"
proof -
  have "(\<exists>i < j + k. P i) \<longleftrightarrow> (\<exists>i < j. P i) \<or> (\<exists>i < k. P (j + i))" for P :: "nat \<Rightarrow> bool"
    by (metis add_diff_inverse_nat add_less_cancel_left trans_less_add1)
  then show ?thesis
    by (simp add: pass_refused_def mapped_passes_add)
qed

lemma pass_refused_Suc:
  "pass_refused pf p (Suc k) os err \<longleftrightarrow>
    pf_refuses pf os p err \<or> pass_refused pf p k (mapped_passes pf p 1 os) err"
  using pass_refused_add [of pf p 1 k os err] by (simp add: pass_refused_def)

lemma mapped_passes_effect:
  assumes laws: "supported_platform pf handles files"
  shows "handles (mapped_passes pf p k os) = handles os \<and> files (mapped_passes pf p k os) = files os \<and>
    pf_mem pf (mapped_passes pf p k os) = pf_mem pf os"
proof (induction k arbitrary: os)
  case (Suc k)
  obtain res os1 where mo: "mmap_open pf os p = Some (res, os1)"
    using mmap_open_on [OF laws, of os p] by blast
  with mmap_open_on [OF laws, of os p] Suc show ?case
    by (cases res) auto
qed simp

lemma ex_pass_accepted:
  assumes "files p = Some f"
  shows "\<not> pass_refused (posix_platform ex_posix) p m (ex_start files) err"
proof -
  have "\<not> posix_refuses ex_posix (mapped_passes (posix_platform ex_posix) p k (ex_start files)) p err" for k
    using mapped_passes_effect [OF ex_supported(1), of p k "ex_start files"] assms
    by (intro ex_idle_accepts [where f = f]) (simp_all add: ex_start_def ex_mem_calls)
  then show ?thesis by (simp add: pass_refused_def)
qed

lemma bench_mmap_effect:
  assumes laws: "supported_platform pf handles files"
    and "files os p = Some f" and "parse_prologue f = Inr body"
  shows "\<exists>res os'. bench_mmap time pf os p passes s = Some (res, os') \<and> handles os' = handles os \<and>
    files os' = files os \<and> pf_mem pf os' = pf_mem pf os \<and>
    (case res of
       Inl err \<Rightarrow> err \<in> what_mmap ` {e. pass_refused pf p passes os e}
     | Inr s' \<Rightarrow> s' = passed time (length (stream_events body)) passes s \<and>
         (\<forall>e. \<not> pass_refused pf p passes os e) \<and> os' = mapped_passes pf p passes os)"
  using assms(2)
proof (induction passes arbitrary: os s)
  case 0
  then show ?case by (simp add: pass_refused_def)
next
  case (Suc passes)
  obtain res os1 where mo: "mmap_open pf os p = Some (res, os1)"
    using mmap_open_on [OF laws, of os p] by blast
  note E = mmap_open_on [OF laws, of os p]
  show ?case
  proof (cases res)
    case (Inl err)
    with E mo Suc.prems assms(3) show ?thesis by (auto simp: pass_refused_Suc)
  next
    case (Inr r)
    let ?os2 = "snd (pf_release pf os1 (mm_map r))"
    from E mo Inr Suc.prems assms(3) have inv: "mmap_inv (pf_mem pf os1) r"
      and rest: "mmap_rest (pf_mem pf os1) r = body" and ok: "\<And>e. \<not> pf_refuses pf os p e"
      and rel: "handles ?os2 = handles os" "files ?os2 = files os" "pf_mem pf ?os2 = pf_mem pf os"
      by auto
    obtain r' where cnt: "count_events (mmap_next (pf_mem pf os1)) 0 r =
        Some (length (stream_events body), r')"
      using mm.count_events_counts [OF inv, of 0] rest by auto
    have "mm_map (snd (length (stream_events body), r')) = mm_map r"
      by (rule count_events_keeps [where g = mm_map, OF _ cnt]) (rule mmap_next_map)
    then have step: "bench_mmap time pf os p (Suc passes) s =
        bench_mmap time pf ?os2 p passes (finish_pass time s (length (stream_events body)))"
      using mo Inr cnt by simp
    have "pass_refused pf p (Suc passes) os e \<longleftrightarrow> pass_refused pf p passes ?os2 e" for e
      using mo Inr ok by (simp add: pass_refused_Suc)
    moreover have "mapped_passes pf p (Suc passes) os = mapped_passes pf p passes ?os2"
      using mo Inr by simp
    moreover have "files ?os2 p = Some f" using rel(2) Suc.prems by simp
    ultimately show ?thesis
      using Suc.IH [of ?os2 "finish_pass time s (length (stream_events body))"] rel
      unfolding step by (fastforce split: sum.splits)
  qed
qed

text \<open>The runs of \<open>main\<close>: the modes agree, and nothing stays open or mapped.\<close>

lemma bench_in_memory_reads:
  assumes "parse_prologue f = Inr body" and "0 < chunk"
  shows "bench_in_memory time f chunk passes = Some (Inr
    (if passes = 0 then bench_zero
     else (passed time (length (stream_events body)) passes bench_zero)\<lparr>bs_record_bytes :=
       length (concat (fst (split_records body)))\<rparr>))"
  using record_start_parsed [OF assms(1)]
  by (simp add: bench_in_memory_def in_memory_passes_counts [OF assms(2)])

text \<open>With chunks of no bytes a pass over any record never ends.\<close>

lemma in_memory_pass_zero_chunk:
  assumes "records \<noteq> []"
  shows "in_memory_pass records 0 asm_empty events rbytes 0 = None"
proof (rule ccontr)
  assume "in_memory_pass records 0 asm_empty events rbytes 0 \<noteq> None"
  then obtain y where run: "in_memory_pass records 0 asm_empty events rbytes 0 = Some y" by auto
  have "records \<noteq> [] \<and> (0::nat) = 0 \<and> asm_empty = asm_empty \<and> (0::nat) = 0 \<longrightarrow> False"
  proof (rule in_memory_pass.raw_induct [where P = "\<lambda>records chunk a events rbytes offset y.
      records \<noteq> [] \<and> chunk = 0 \<and> a = asm_empty \<and> offset = 0 \<longrightarrow> False", OF _ run], goal_cases)
    case (1 ip records chunk a events rbytes offset y)
    have "asm_next asm_empty = Some (\<lparr> pl_status = PullNeedMore,
        pl_record = \<lparr> vw_off = 0, vw_len = 0 \<rparr> \<rparr>, asm_empty)"
      by (rule asm_next_short) (simp_all add: short_tail_def)
    moreover have "asm_append asm_empty [] = Some asm_empty"
      by (simp add: asm_append_def asm_empty_def)
    ultimately have "chunk = 0 \<Longrightarrow> a = asm_empty \<Longrightarrow> offset = 0 \<Longrightarrow> records \<noteq> [] \<Longrightarrow>
        ip records 0 asm_empty events rbytes 0 = Some y"
      using 1(2) by (simp add: span_slice_def)
    with 1(1) [of records 0 asm_empty events rbytes 0 y] show ?case by blast
  qed
  with assms show False by simp
qed

lemma bench_end_to_end_zero_chunk:
  assumes "fs p = Some f" and "parse_prologue f = Inr body" and "metadata_length f = 0"
  shows "\<exists>s'. bench_end_to_end time fs p 0 passes s = Some (Inr s')"
proof (induction passes arbitrary: s)
  case (Suc passes)
  obtain r r' where "dbn_open fs p 0 = Some (Inr r)" "dbn_next file_read r = Some (None, r')"
    using dbn_open_zero_empty [of fs p f body] assms by blast
  with Suc show ?case by (simp add: count_events.simps)
qed simp

subsection \<open>Properties\<close>

text \<open>The in-memory mode counts what the readers count: on every file the readers accept, with
  chunks of any size but 0 and any number of passes, it ends and finds the events of the stream, and
  as record bytes all bytes of the whole records.\<close>

lemma bench_in_memory_counts:
  assumes "parse_prologue f = Inr body" and "0 < chunk" and "0 < passes"
  shows "bench_in_memory time f chunk passes = Some (Inr
    \<lparr> bs_events = length (stream_events body),
      bs_record_bytes = length body - length (snd (split_records body)),
      bs_pass_ns = map (\<lambda>i. time i (length (stream_events body))) [0..<passes] \<rparr>)"
proof -
  have "length (concat (fst (split_records body))) + length (snd (split_records body)) = length body"
    using split_records_sound [of body] by (metis length_append)
  then have "length (concat (fst (split_records body))) = length body - length (snd (split_records body))"
    by linarith
  with assms(3) show ?thesis
    unfolding bench_in_memory_reads [OF assms(1,2)]
    by (simp add: bench_zero_def)
qed

text \<open>(C37) The two ways in which the in-memory mode is not total: it trusts the metadata length of
  the header, so on a file that is cut inside the metadata it takes a subspan past the end of the
  file; and with a chunk size of 0, which the command line can ask for, a pass over a file with any
  record byte never ends.\<close>

theorem bench_in_memory_partial:
  assumes "take 3 f = [chr CHR ''D'', chr CHR ''B'', chr CHR ''N'']" and "8 \<le> length f"
  shows "(length f < 8 + metadata_length f \<longrightarrow> bench_in_memory time f chunk passes = None) \<and>
    (8 + metadata_length f < length f \<longrightarrow> bench_in_memory time f 0 (Suc passes) = None)"
proof -
  have "byte_at f 0 = Some (f ! 0)" "byte_at f 1 = Some (f ! 1)" "byte_at f 2 = Some (f ! 2)"
    "span_slice 4 4 f = Some (take 4 (drop 4 f))"
    using assms(2) by (auto simp: byte_at_def span_slice_def)
  moreover have "(le_word (take 4 (drop 4 f)) :: u32) = load_field 4 4 f"
    by (simp add: load_field_def)
  ultimately have start: "record_start f = Some (Inr (8 + metadata_length f))"
    using assms take3_magic [OF assms(2)]
    by (auto simp: record_start_def metadata_length_def Let_def)
  then show ?thesis
    by (auto simp: bench_in_memory_def span_subspan_def in_memory_pass_zero_chunk)
qed

theorem bench_in_memory_partial_witness:
  "bench_in_memory (\<lambda>i n. i + n) ([68, 66, 78, 1] @ [9, 0, 0, 0]) 64 1 = None"
  using bench_in_memory_partial [of "[68, 66, 78, 1] @ [9, 0, 0, 0]" "\<lambda>i n. i + n" 64 1]
  by (simp add: metadata_length_def load_field_def le_word_def)

end
