(* ===== verification/Doubles.thy ===== *)
theory Doubles
  imports Complex_Main Text "HOL-Library.Multiset"
begin

text \<open>
  What \<open>bench/bench_dbn.cpp\<close> needs of \<open>double\<close>, of \<open>printf\<close> on it and of \<open>std::sort\<close>. Neither the
  arithmetic nor the sorting routine is code of the program: both are a parameter, with the laws that
  IEEE 754 and the C++ standard give them. A time per event can be infinite or a NaN (no events), so
  the values are not linearly ordered, and sorting them is defined only under the precondition that
  \<open>std::sort\<close> has.
\<close>

subsection \<open>The interface\<close>

text \<open>\<open>ar_show w p x\<close> is what \<open>printf\<close> makes of \<open>x\<close> with the field width \<open>w\<close> and the precision \<open>p\<close>.\<close>

record 'd arith =
  ar_of_nat :: "nat \<Rightarrow> 'd"
  ar_nano :: 'd
  ar_sub :: "'d \<Rightarrow> 'd \<Rightarrow> 'd"
  ar_mul :: "'d \<Rightarrow> 'd \<Rightarrow> 'd"
  ar_div :: "'d \<Rightarrow> 'd \<Rightarrow> 'd"
  ar_less :: "'d \<Rightarrow> 'd \<Rightarrow> bool"
  ar_is_nan :: "'d \<Rightarrow> bool"
  ar_sort :: "'d list \<Rightarrow> 'd list"
  ar_show :: "nat \<Rightarrow> nat \<Rightarrow> 'd \<Rightarrow> string"

text \<open>The comparison is a strict weak ordering on the elements of a vector: asymmetric, and an element
  between two others is on one side or the other.\<close>

definition strict_weak :: "('d \<Rightarrow> 'd \<Rightarrow> bool) \<Rightarrow> 'd list \<Rightarrow> bool" where
  "strict_weak lt v \<longleftrightarrow>
     (\<forall>x \<in> set v. \<forall>y \<in> set v. lt x y \<longrightarrow> \<not> lt y x) \<and>
     (\<forall>x \<in> set v. \<forall>y \<in> set v. \<forall>z \<in> set v. lt x z \<longrightarrow> lt x y \<or> lt y z)"

text \<open>\<open>std::sort\<close> is undefined without it.\<close>

definition std_sort :: "'d arith \<Rightarrow> 'd list \<Rightarrow> 'd list option" where
  "std_sort ar v = (if strict_weak (ar_less ar) v then Some (ar_sort ar v) else None)"

subsection \<open>The laws\<close>

text \<open>The result is a permutation in which no element is less than an earlier one; which of several
  equivalent elements comes first is left open.\<close>

definition sort_law :: "'d arith \<Rightarrow> bool" where
  "sort_law ar \<longleftrightarrow>
     (\<forall>v. strict_weak (ar_less ar) v \<longrightarrow>
        mset (ar_sort ar v) = mset v \<and> sorted_wrt (\<lambda>x y. \<not> ar_less ar y x) (ar_sort ar v))"

text \<open>A NaN compares less with nothing, and the other values are ordered. A whole number over a
  positive one is no NaN. Over zero it is infinite or, for zero itself, a NaN: none of these values
  is less than another.\<close>

definition ieee_law :: "'d arith \<Rightarrow> bool" where
  "ieee_law ar \<longleftrightarrow>
     (\<forall>x y. ar_is_nan ar x \<or> ar_is_nan ar y \<longrightarrow> \<not> ar_less ar x y) \<and>
     (\<forall>x y. ar_less ar x y \<longrightarrow> \<not> ar_less ar y x) \<and>
     (\<forall>x y z. \<not> ar_is_nan ar y \<longrightarrow> ar_less ar x z \<longrightarrow> ar_less ar x y \<or> ar_less ar y z) \<and>
     (\<forall>t n. 0 < n \<longrightarrow> \<not> ar_is_nan ar (ar_div ar (ar_of_nat ar t) (ar_of_nat ar n))) \<and>
     (\<forall>t u. \<not> ar_less ar (ar_div ar (ar_of_nat ar t) (ar_of_nat ar 0))
               (ar_div ar (ar_of_nat ar u) (ar_of_nat ar 0)))"

definition double_laws :: "'d arith \<Rightarrow> bool" where
  "double_laws ar \<longleftrightarrow> sort_law ar \<and> ieee_law ar"

lemma std_sort_SomeD:
  assumes "double_laws ar" and "std_sort ar v = Some w"
  shows "mset w = mset v" and "sorted_wrt (\<lambda>x y. \<not> ar_less ar y x) w"
  using assms by (auto simp: double_laws_def sort_law_def std_sort_def split: if_splits)

lemma less_asym: "double_laws ar \<Longrightarrow> ar_less ar x y \<Longrightarrow> \<not> ar_less ar y x"
  by (simp add: double_laws_def ieee_law_def)

text \<open>Times per event can always be sorted: they are quotients by the same number of events, and when
  this is zero no two of them are ordered.\<close>

lemma quotients_sortable:
  assumes "double_laws ar"
  shows "strict_weak (ar_less ar) (map (\<lambda>i. ar_div ar (ar_of_nat ar (t i)) (ar_of_nat ar n)) js)"
proof (cases "n = 0")
  case True
  with assms show ?thesis
    by (auto simp: strict_weak_def double_laws_def ieee_law_def)
next
  case False
  let ?q = "\<lambda>i. ar_div ar (ar_of_nat ar (t i)) (ar_of_nat ar n)"
  have "\<not> ar_is_nan ar (?q i)" for i
    using assms False by (simp add: double_laws_def ieee_law_def)
  moreover have "ar_less ar x z \<Longrightarrow> ar_less ar x y \<or> ar_less ar y z" if "\<not> ar_is_nan ar y" for x y z
    using assms that unfolding double_laws_def ieee_law_def by blast
  ultimately show ?thesis
    using less_asym [OF assms] unfolding strict_weak_def by auto
qed

subsection \<open>Order statistics\<close>

text \<open>The positions of a sorted vector, for any asymmetric comparison.\<close>

lemma sorted_positions:
  assumes sorted: "sorted_wrt (\<lambda>x y. \<not> lt y x) v" and asym: "\<And>x y. lt x y \<Longrightarrow> \<not> lt y x"
    and i: "i < length v"
  shows "length (filter (\<lambda>t. lt t (v ! i)) v) \<le> i"
    and "length (filter (\<lambda>t. lt (v ! i) t) v) < length v - i"
proof -
  have mono: "\<not> lt (v ! k) (v ! j)" if "j \<le> k" "k < length v" for j k
    using sorted_wrt_nth_less [OF sorted, of j k] that asym by (cases "j = k") auto
  have low: "filter (\<lambda>t. lt t (v ! i)) (drop i v) = []"
    using mono by (fastforce simp: filter_empty_conv in_set_conv_nth)
  have high: "filter (\<lambda>t. lt (v ! i) t) (take (Suc i) v) = []"
    using mono i by (fastforce simp: filter_empty_conv in_set_conv_nth)
  have "filter (\<lambda>t. lt t (v ! i)) v = filter (\<lambda>t. lt t (v ! i)) (take i v)"
    using low by (metis append_take_drop_id filter_append append_Nil2)
  then show "length (filter (\<lambda>t. lt t (v ! i)) v) \<le> i"
    by (metis length_filter_le length_take min.bounded_iff)
  have "filter (\<lambda>t. lt (v ! i) t) v = filter (\<lambda>t. lt (v ! i) t) (drop (Suc i) v)"
    using high by (metis append_take_drop_id filter_append append_Nil)
  then have "length (filter (\<lambda>t. lt (v ! i) t) v) \<le> length v - Suc i"
    by (metis length_filter_le length_drop)
  with i show "length (filter (\<lambda>t. lt (v ! i) t) v) < length v - i" by linarith
qed

lemma sorted_ends:
  assumes sorted: "sorted_wrt (\<lambda>x y. \<not> lt y x) v" and asym: "\<And>x y. lt x y \<Longrightarrow> \<not> lt y x"
    and "t \<in> set v"
  shows "\<not> lt t (hd v) \<and> \<not> lt (last v) t"
proof -
  from assms(3) have "v \<noteq> []" by auto
  then have hd: "hd v = v ! 0" and last: "last v = v ! (length v - 1)" and "0 < length v"
    by (simp_all add: hd_conv_nth last_conv_nth)
  have "filter (\<lambda>t. lt t (v ! 0)) v = []"
    using sorted_positions(1) [OF sorted asym, of 0] \<open>0 < length v\<close> by simp
  moreover have "filter (\<lambda>t. lt (v ! (length v - 1)) t) v = []"
    using sorted_positions(2) [OF sorted asym, of "length v - 1"] \<open>0 < length v\<close> by simp
  ultimately show ?thesis
    using assms(3) unfolding hd last by (simp add: filter_empty_conv)
qed

subsection \<open>An example\<close>

text \<open>Rational numbers with infinity and NaN, and insertion sort.\<close>

datatype ex_double = NaN | Inf | Fin rat

fun ex_sub :: "ex_double \<Rightarrow> ex_double \<Rightarrow> ex_double" where
  "ex_sub (Fin a) (Fin b) = Fin (a - b)"
| "ex_sub Inf (Fin b) = Inf"
| "ex_sub x y = NaN"

fun ex_mul :: "ex_double \<Rightarrow> ex_double \<Rightarrow> ex_double" where
  "ex_mul (Fin a) (Fin b) = Fin (a * b)"
| "ex_mul Inf (Fin b) = (if 0 < b then Inf else NaN)"
| "ex_mul (Fin a) Inf = (if 0 < a then Inf else NaN)"
| "ex_mul Inf Inf = Inf"
| "ex_mul x y = NaN"

fun ex_div :: "ex_double \<Rightarrow> ex_double \<Rightarrow> ex_double" where
  "ex_div (Fin a) (Fin b) =
     (if b \<noteq> 0 then Fin (a / b) else if 0 < a then Inf else NaN)"
| "ex_div Inf (Fin b) = Inf"
| "ex_div Inf Inf = NaN"
| "ex_div Inf NaN = NaN"
| "ex_div (Fin a) Inf = Fin 0"
| "ex_div (Fin a) NaN = NaN"
| "ex_div NaN y = NaN"

fun ex_less :: "ex_double \<Rightarrow> ex_double \<Rightarrow> bool" where
  "ex_less (Fin a) (Fin b) = (a < b)"
| "ex_less (Fin a) Inf = True"
| "ex_less x y = False"

fun ex_insert :: "ex_double \<Rightarrow> ex_double list \<Rightarrow> ex_double list" where
  "ex_insert x [] = [x]"
| "ex_insert x (y # ys) = (if ex_less y x then y # ex_insert x ys else x # y # ys)"

fun ex_show :: "ex_double \<Rightarrow> string" where
  "ex_show (Fin a) = decimal_int \<lfloor>a\<rfloor>"
| "ex_show Inf = ''inf''"
| "ex_show NaN = ''nan''"

definition ex_arith :: "ex_double arith" where
  "ex_arith =
     \<lparr> ar_of_nat = (\<lambda>n. Fin (of_nat n)), ar_nano = Fin (1 / 10 ^ 9), ar_sub = ex_sub, ar_mul = ex_mul,
       ar_div = ex_div, ar_less = ex_less, ar_is_nan = (\<lambda>x. x = NaN),
       ar_sort = (\<lambda>v. foldr ex_insert v []), ar_show = (\<lambda>w p x. ex_show x) \<rparr>"

lemma ex_less_asym: "ex_less x y \<Longrightarrow> \<not> ex_less y x"
  by (cases x; cases y) auto

lemma mset_ex_insert [simp]: "mset (ex_insert x ys) = add_mset x (mset ys)"
  by (induction ys) auto

lemma set_ex_insert [simp]: "set (ex_insert x ys) = insert x (set ys)"
  by (metis mset_ex_insert set_mset_add_mset_insert set_mset_mset)

lemma sorted_ex_insert:
  assumes "strict_weak ex_less (x # ys)" and "sorted_wrt (\<lambda>a b. \<not> ex_less b a) ys"
  shows "sorted_wrt (\<lambda>a b. \<not> ex_less b a) (ex_insert x ys)"
  using assms
proof (induction ys)
  case (Cons y ys)
  have "strict_weak ex_less (x # ys)"
    using Cons.prems(1) by (simp add: strict_weak_def)
  with Cons.IH Cons.prems(2) have IH: "sorted_wrt (\<lambda>a b. \<not> ex_less b a) (ex_insert x ys)" by simp
  have between: "ex_less z y \<or> ex_less y x" if "z \<in> set ys" "ex_less z x" for z
    using Cons.prems(1) that by (auto simp: strict_weak_def)
  show ?case
    using IH Cons.prems(2) between ex_less_asym by (auto split: if_splits)
qed simp

lemma ex_sort_law: "sort_law ex_arith"
proof -
  have "mset (foldr ex_insert v []) = mset v \<and>
      sorted_wrt (\<lambda>a b. \<not> ex_less b a) (foldr ex_insert v [])" if "strict_weak ex_less v" for v
    using that
  proof (induction v)
    case (Cons x v)
    have set: "set (foldr ex_insert v []) = set v"
      by (induction v) simp_all
    have "strict_weak ex_less v" and "strict_weak ex_less (x # foldr ex_insert v [])"
      using Cons.prems by (simp_all add: strict_weak_def set)
    with Cons.IH show ?case by (simp add: sorted_ex_insert)
  qed simp
  then show ?thesis by (simp add: sort_law_def ex_arith_def)
qed

lemma ex_double_laws: "double_laws ex_arith"
proof -
  have "ex_less x z \<Longrightarrow> ex_less x y \<or> ex_less y z" if "y \<noteq> NaN" for x y z
    using that by (cases x; cases y; cases z) auto
  moreover have "\<not> ex_less x y" if "x = NaN \<or> y = NaN" for x y
    using that by (cases x; cases y) auto
  ultimately have "ieee_law ex_arith"
    using ex_less_asym by (auto simp: ieee_law_def ex_arith_def)
  with ex_sort_law show ?thesis by (simp add: double_laws_def)
qed

end
