(* ===== verification/Bench.thy ===== *)
theory Bench
  imports BenchModes Doubles
begin

text \<open>
  \<open>bench/bench_dbn.cpp\<close>, the process: its arguments, the runs of the three modes (\<open>BenchModes\<close>), the
  report and the parity check, and the text it prints. The clock is a parameter, the nanoseconds that
  pass \<open>i\<close> of a mode takes, and so are the arithmetic of \<open>double\<close> and \<open>std::sort\<close> (\<open>Doubles\<close>).
\<close>

subsection \<open>The report\<close>

text \<open>A line of output has the values its \<open>printf\<close> calls print.\<close>

datatype 'd bench_line =
    BenchUsage
  | BenchPasses
  | BenchHeader path 'd nat int
  | BenchBlank
  | BenchReport string nat 'd 'd 'd 'd 'd 'd
  | ParityFail nat nat
  | ParityOk nat
  | Decomposition 'd 'd 'd 'd 'd
  | BenchError string

text \<open>\<open>front\<close>, \<open>back\<close> and indexing are undefined on an empty vector.\<close>

definition vec_front :: "'d list \<Rightarrow> 'd option" where
  "vec_front v = (if v = [] then None else Some (hd v))"

definition vec_middle :: "'d list \<Rightarrow> 'd option" where
  "vec_middle v = (if v = [] then None else Some (v ! (length v div 2)))"

definition vec_back :: "'d list \<Rightarrow> 'd option" where
  "vec_back v = (if v = [] then None else Some (last v))"

definition report :: "'d arith \<Rightarrow> string \<Rightarrow> 'd bench_stats \<Rightarrow> 'd bench_line option" where
  "report ar label s = do {
     v \<leftarrow> std_sort ar (bs_pass_ns s);
     best \<leftarrow> vec_front v;
     med \<leftarrow> vec_middle v;
     worst \<leftarrow> vec_back v;
     let peak_evs = ar_div ar (ar_of_nat ar (10 ^ 9)) best;
     let typ_evs = ar_div ar (ar_of_nat ar (10 ^ 9)) med;
     let typ_mbps = ar_div ar
       (ar_div ar (ar_of_nat ar (bs_record_bytes s))
          (ar_mul ar (ar_mul ar med (ar_nano ar)) (ar_of_nat ar (bs_events s))))
       (ar_of_nat ar (1024 * 1024));
     Some (BenchReport label (bs_events s) best med worst
       (ar_div ar peak_evs (ar_of_nat ar (10 ^ 6))) (ar_div ar typ_evs (ar_of_nat ar (10 ^ 6))) typ_mbps)
   }"

lemmas vec_defs = vec_front_def vec_middle_def vec_back_def

subsection \<open>The driver\<close>

datatype bench_mode = ModeA | ModeB | ModeC

definition ns_per_event :: "'d arith \<Rightarrow> (bench_mode \<Rightarrow> nat \<Rightarrow> nat) \<Rightarrow> bench_mode \<Rightarrow> nat \<Rightarrow> nat \<Rightarrow> 'd" where
  "ns_per_event ar ns mode i events = ar_div ar (ar_of_nat ar (ns mode i)) (ar_of_nat ar events)"

text \<open>The arguments after the file name.\<close>

definition bench_passes :: "string list \<Rightarrow> int option" where
  "bench_passes args = (case args of [] \<Rightarrow> Some 20 | n # _ \<Rightarrow> c_atoi n)"

definition bench_chunk :: "string list \<Rightarrow> nat option" where
  "bench_chunk args =
     (case args of
        _ # n # _ \<Rightarrow> map_option (\<lambda>n. nat (n mod 2 ^ 64)) (c_atoll n)
      | _ \<Rightarrow> Some (64 * 1024))"

text \<open>The runs of the \<open>try\<close> block: \<open>Inl\<close> is the exception that reaches the handler.\<close>

definition bench_run ::
    "(bench_mode \<Rightarrow> nat \<Rightarrow> nat \<Rightarrow> 'd) \<Rightarrow> file_system \<Rightarrow> 'os platform \<Rightarrow> 'os \<Rightarrow> path \<Rightarrow> bytes \<Rightarrow>
      nat \<Rightarrow> nat \<Rightarrow> ((string + ('d bench_stats \<times> 'd bench_stats \<times> 'd bench_stats)) \<times> 'os) option" where
  "bench_run time fs pf os p f passes chunk = do {
     warm_a \<leftarrow> bench_end_to_end (time ModeA) fs p chunk 2 bench_zero;
     case warm_a of Inl err \<Rightarrow> Some (Inl err, os) | Inr _ \<Rightarrow> do {
     warm_b \<leftarrow> bench_in_memory (time ModeB) f chunk 2;
     case warm_b of Inl err \<Rightarrow> Some (Inl err, os) | Inr _ \<Rightarrow> do {
     (warm_c, os) \<leftarrow> bench_mmap (time ModeC) pf os p 2 bench_zero;
     case warm_c of Inl err \<Rightarrow> Some (Inl err, os) | Inr _ \<Rightarrow> do {
     run_a \<leftarrow> bench_end_to_end (time ModeA) fs p chunk passes bench_zero;
     case run_a of Inl err \<Rightarrow> Some (Inl err, os) | Inr a \<Rightarrow> do {
     run_b \<leftarrow> bench_in_memory (time ModeB) f chunk passes;
     case run_b of Inl err \<Rightarrow> Some (Inl err, os) | Inr b \<Rightarrow> do {
     (run_c, os) \<leftarrow> bench_mmap (time ModeC) pf os p passes bench_zero;
     case run_c of Inl err \<Rightarrow> Some (Inl err, os) | Inr c \<Rightarrow>
     Some (Inr (a, b, c), os) }}}}}}"

definition bench_summary ::
    "'d arith \<Rightarrow> 'd bench_stats \<Rightarrow> 'd bench_stats \<Rightarrow> 'd bench_stats \<Rightarrow> 'd bench_line list option" where
  "bench_summary ar a b c = do {
     line_a \<leftarrow> report ar ''A stream'' (a\<lparr>bs_record_bytes := bs_record_bytes b\<rparr>);
     line_b \<leftarrow> report ar ''B in-mem'' b;
     line_c \<leftarrow> report ar ''C mmap'' (c\<lparr>bs_record_bytes := bs_record_bytes b\<rparr>);
     let parity = (if bs_events a \<noteq> bs_events c then ParityFail (bs_events a) (bs_events c)
                   else ParityOk (bs_events c));
     va \<leftarrow> std_sort ar (bs_pass_ns a);
     vb \<leftarrow> std_sort ar (bs_pass_ns b);
     vc \<leftarrow> std_sort ar (bs_pass_ns c);
     a_med \<leftarrow> vec_middle va;
     b_med \<leftarrow> vec_middle vb;
     c_med \<leftarrow> vec_middle vc;
     Some [BenchBlank, line_a, line_b, line_c, parity,
           Decomposition a_med c_med b_med (ar_sub ar a_med c_med) (ar_sub ar c_med b_med)]
   }"

definition bench_header :: "'d arith \<Rightarrow> path \<Rightarrow> bytes \<Rightarrow> nat \<Rightarrow> int \<Rightarrow> 'd bench_line" where
  "bench_header ar p f chunk passes =
     BenchHeader p (ar_div ar (ar_of_nat ar (length f)) (ar_of_nat ar (1024 * 1024))) chunk passes"

text \<open>\<open>main\<close>, from \<open>argv\<close>. Without even a program name \<open>argv[0]\<close> is a null pointer.\<close>

fun bench_main ::
    "'d arith \<Rightarrow> (bench_mode \<Rightarrow> nat \<Rightarrow> nat) \<Rightarrow> file_system \<Rightarrow> 'os platform \<Rightarrow> 'os \<Rightarrow>
      string list \<Rightarrow> ('d bench_line list \<times> int \<times> 'os) option" where
  "bench_main ar ns fs pf os [] = None"
| "bench_main ar ns fs pf os [prog] = Some ([BenchUsage], 2, os)"
| "bench_main ar ns fs pf os (prog # p # args) = do {
     passes \<leftarrow> bench_passes args;
     chunk \<leftarrow> bench_chunk args;
     if passes < 1 then Some ([BenchPasses], 2, os)
     else case slurp fs p of
       Inl err \<Rightarrow> Some ([BenchError err], 1, os)
     | Inr f \<Rightarrow> do {
         let header = bench_header ar p f chunk passes;
         (res, os) \<leftarrow> bench_run (ns_per_event ar ns) fs pf os p f (nat passes) chunk;
         case res of
           Inl err \<Rightarrow> Some ([header, BenchError err], 1, os)
         | Inr (a, b, c) \<Rightarrow> do {
             summary \<leftarrow> bench_summary ar a b c;
             Some (header # summary, 0, os)
           }
       }
   }"

declare bench_main.simps [simp del]

text \<open>What \<open>printf\<close> makes of a line; \<open>%-10s\<close> pads a label on the right.\<close>

definition pad_right :: "nat \<Rightarrow> string \<Rightarrow> string" where
  "pad_right n s = s @ replicate (n - length s) CHR '' ''"

fun bench_render :: "'d arith \<Rightarrow> string \<Rightarrow> 'd bench_line \<Rightarrow> string" where
  "bench_render ar prog BenchUsage =
     ''usage: '' @ prog @ '' <file.dbn> [passes=20] [chunk_bytes=65536]'' @ [newline]"
| "bench_render ar prog BenchPasses = ''bench_dbn: passes must be >= 1'' @ [newline]"
| "bench_render ar prog (BenchHeader p mb chunk passes) =
     ''bench_dbn: file='' @ p @ ''  size='' @ ar_show ar 0 1 mb @ '' MB  chunk='' @ decimal chunk @
     '' B  passes='' @ decimal_int passes @ [newline]"
| "bench_render ar prog BenchBlank = [newline]"
| "bench_render ar prog (BenchReport label events best med worst peak typ mbps) =
     ''  '' @ pad_right 10 label @ '' events='' @ decimal events @ ''  ns/event[min|med|max]= '' @
     ar_show ar 6 1 best @ '' | '' @ ar_show ar 6 1 med @ '' | '' @ ar_show ar 6 1 worst @ [newline] @
     ''             peak= '' @ ar_show ar 6 2 peak @ '' M ev/s   typical= '' @ ar_show ar 6 2 typ @
     '' M ev/s   ~'' @ ar_show ar 6 0 mbps @ '' MB/s'' @ [newline]"
| "bench_render ar prog (ParityFail a c) =
     ''  !! PARITY FAIL: stream='' @ decimal a @ '' mmap='' @ decimal c @ '' events'' @ [newline]"
| "bench_render ar prog (ParityOk n) =
     ''  parity OK: stream and mmap agree on '' @ decimal n @ '' events'' @ [newline]"
| "bench_render ar prog (Decomposition a c b a_c c_b) =
     [newline] @ ''  decomposition (median ns/event):'' @ [newline] @
     ''    A streaming e2e     = '' @ ar_show ar 6 1 a @ [newline] @
     ''    C mmap e2e          = '' @ ar_show ar 6 1 c @ [newline] @
     ''    B framing+decode    = '' @ ar_show ar 6 1 b @ ''  (CPU floor)'' @ [newline] @
     ''    A - C (mmap win)    = '' @ ar_show ar 6 1 a_c @ ''  <- MEASURED'' @ [newline] @
     ''    C - B (map residual)= '' @ ar_show ar 6 1 c_b @ [newline]"
| "bench_render ar prog (BenchError what) = ''bench_dbn error: '' @ what @ [newline]"

text \<open>Usage and errors go to \<open>stderr\<close>, the report to \<open>stdout\<close>.\<close>

fun bench_on_stdout :: "'d bench_line \<Rightarrow> bool" where
  "bench_on_stdout BenchUsage = False"
| "bench_on_stdout BenchPasses = False"
| "bench_on_stdout (BenchError what) = False"
| "bench_on_stdout line = True"

fun bench_process ::
    "'d arith \<Rightarrow> (bench_mode \<Rightarrow> nat \<Rightarrow> nat) \<Rightarrow> file_system \<Rightarrow> 'os platform \<Rightarrow> 'os \<Rightarrow>
      string list \<Rightarrow> (process_result \<times> 'os) option" where
  "bench_process ar ns fs pf os [] = None"
| "bench_process ar ns fs pf os (prog # args) = do {
     (out, code, os) \<leftarrow> bench_main ar ns fs pf os (prog # args);
     Some (\<lparr> pr_stdout = concat (map (bench_render ar prog) (filter bench_on_stdout out)),
             pr_stderr = concat (map (bench_render ar prog) (filter (Not \<circ> bench_on_stdout) out)),
             pr_exit = code \<rparr>, os)
   }"

subsection \<open>What the runs measure\<close>

text \<open>What a run stores: the number of events and the time of every pass.\<close>

definition measured :: "(nat \<Rightarrow> nat \<Rightarrow> 'd) \<Rightarrow> nat \<Rightarrow> nat \<Rightarrow> 'd bench_stats \<Rightarrow> bool" where
  "measured time n passes s \<longleftrightarrow>
     bs_events s = n \<and> bs_pass_ns s = map (\<lambda>i. time i n) [0..<passes]"

lemma measured_passed:
  "0 < passes \<Longrightarrow> measured time n passes (passed time n passes bench_zero)"
  by (simp add: measured_def bench_zero_def)

lemma measured_record_bytes [simp]:
  "measured time n passes (s\<lparr>bs_record_bytes := m\<rparr>) = measured time n passes s"
  by (simp add: measured_def)

text \<open>The bytes of the whole records, and what the three modes store of one file.\<close>

definition record_bytes :: "bytes \<Rightarrow> nat" where
  "record_bytes body = length body - length (snd (split_records body))"

lemma record_bytes_records: "length (concat (fst (split_records body))) = record_bytes body"
proof -
  have "length (concat (fst (split_records body))) + length (snd (split_records body)) = length body"
    using split_records_sound [of body] by (metis length_append)
  then show ?thesis
    unfolding record_bytes_def by linarith
qed

definition measured_all ::
    "(bench_mode \<Rightarrow> nat \<Rightarrow> nat \<Rightarrow> 'd) \<Rightarrow> nat \<Rightarrow> nat \<Rightarrow> nat \<Rightarrow>
      'd bench_stats \<times> 'd bench_stats \<times> 'd bench_stats \<Rightarrow> bool" where
  "measured_all time n bytes passes abc \<longleftrightarrow>
     (case abc of (a, b, c) \<Rightarrow>
        measured (time ModeA) n passes a \<and> measured (time ModeB) n passes b \<and>
        measured (time ModeC) n passes c \<and> bs_record_bytes b = bytes)"

lemma bench_run_too_long:
  assumes "vector_max_size < chunk" and "fs p = Some f"
  shows "bench_run time fs pf os p f passes chunk = Some (Inl (what_stream VectorTooLong), os)"
  using assms by (simp add: bench_run_def numeral_2_eq_2 dbn_open_too_long)

lemma bench_run_fits:
  assumes laws: "supported_platform pf handles files" and same: "files os = fs"
    and chunk: "0 < chunk" "chunk \<le> vector_max_size"
    and f: "fs p = Some f" and "0 < passes"
  shows "\<exists>res os'. bench_run time fs pf os p f passes chunk = Some (res, os') \<and>
    handles os' = handles os \<and> pf_mem pf os' = pf_mem pf os \<and>
    (case parse_prologue f of
       Inl err \<Rightarrow> res = Inl (what_stream err)
     | Inr body \<Rightarrow>
         (case res of
            Inl err \<Rightarrow> err \<in> what_mmap ` {e. pass_refused pf p (2 + passes) os e}
          | Inr abc \<Rightarrow> (\<forall>e. \<not> pass_refused pf p (2 + passes) os e) \<and>
              measured_all time (length (stream_events body)) (record_bytes body) passes abc))"
proof (cases "parse_prologue f")
  case (Inl err)
  have "bench_end_to_end (time ModeA) fs p chunk (Suc 1) bench_zero = Some (Inl (what_stream err))"
    using chunk f Inl by (rule bench_end_to_end_error)
  with Inl show ?thesis
    by (simp add: bench_run_def numeral_2_eq_2)
next
  case (Inr body)
  let ?n = "length (stream_events body)"
  note A = bench_end_to_end_counts [where fs = fs and p = p, OF chunk f Inr]
  note B = bench_in_memory_reads [OF Inr chunk(1)]
  have file0: "files os p = Some f" using same f by simp
  obtain w os1 where w: "bench_mmap (time ModeC) pf os p 2 bench_zero = Some (w, os1)"
    "handles os1 = handles os" "files os1 = files os" "pf_mem pf os1 = pf_mem pf os"
    and warm: "case w of Inl err \<Rightarrow> err \<in> what_mmap ` {e. pass_refused pf p 2 os e}
      | Inr s \<Rightarrow> (\<forall>e. \<not> pass_refused pf p 2 os e) \<and> os1 = mapped_passes pf p 2 os"
    using bench_mmap_effect [OF laws file0 Inr, of "time ModeC" 2 bench_zero]
    by (fastforce split: sum.splits)
  have file1: "files os1 p = Some f" using file0 w(3) by simp
  obtain c os2 where c: "bench_mmap (time ModeC) pf os1 p passes bench_zero = Some (c, os2)"
    "handles os2 = handles os1" "pf_mem pf os2 = pf_mem pf os1"
    and res: "case c of Inl err \<Rightarrow> err \<in> what_mmap ` {e. pass_refused pf p passes os1 e}
      | Inr s' \<Rightarrow> s' = passed (time ModeC) ?n passes bench_zero \<and> (\<forall>e. \<not> pass_refused pf p passes os1 e)"
    using bench_mmap_effect [OF laws file1 Inr, of "time ModeC" passes bench_zero]
    by (fastforce split: sum.splits)
  note M = measured_passed [OF \<open>0 < passes\<close>] and run = bench_run_def A B
  show ?thesis
  proof (cases w)
    case (Inl err)
    with w warm \<open>parse_prologue f = Inr body\<close> show ?thesis
      by (auto simp: run pass_refused_add simp del: add_2_eq_Suc)
  next
    case warmed: (Inr v)
    show ?thesis
    proof (cases c)
      case (Inl err)
      with warmed warm w c res \<open>parse_prologue f = Inr body\<close> show ?thesis
        by (auto simp: run pass_refused_add simp del: add_2_eq_Suc)
    next
      case (Inr s')
      with warmed warm w c res \<open>parse_prologue f = Inr body\<close> \<open>0 < passes\<close> show ?thesis
        by (simp add: run M pass_refused_add measured_all_def record_bytes_records del: add_2_eq_Suc)
    qed
  qed
qed

text \<open>What the runs make of a file: the exception that its prologue or the chunk size calls for, or its
  records.\<close>

definition bench_input :: "nat \<Rightarrow> bytes \<Rightarrow> dbn_error + bytes" where
  "bench_input chunk f = (if vector_max_size < chunk then Inl VectorTooLong else parse_prologue f)"

lemma bench_run_outcome:
  assumes laws: "supported_platform pf handles files" and same: "files os = fs" and chunk: "0 < chunk"
    and f: "fs p = Some f" and "0 < passes"
  shows "\<exists>res os'. bench_run time fs pf os p f passes chunk = Some (res, os') \<and>
    handles os' = handles os \<and> pf_mem pf os' = pf_mem pf os \<and>
    (case bench_input chunk f of
       Inl err \<Rightarrow> res = Inl (what_stream err)
     | Inr body \<Rightarrow>
         (case res of
            Inl err \<Rightarrow> err \<in> what_mmap ` {e. pass_refused pf p (2 + passes) os e}
          | Inr abc \<Rightarrow> (\<forall>e. \<not> pass_refused pf p (2 + passes) os e) \<and>
              measured_all time (length (stream_events body)) (record_bytes body) passes abc))"
proof (cases "vector_max_size < chunk")
  case True
  then show ?thesis
    using f by (simp add: bench_input_def bench_run_too_long)
next
  case False
  then have "chunk \<le> vector_max_size" and "bench_input chunk f = parse_prologue f"
    by (simp_all add: bench_input_def)
  with bench_run_fits [OF laws same chunk _ f assms(5)] show ?thesis by simp
qed

text \<open>The sorted times per event of a mode, and the middle one.\<close>

definition pass_times :: "'d arith \<Rightarrow> (nat \<Rightarrow> nat) \<Rightarrow> nat \<Rightarrow> nat \<Rightarrow> 'd list" where
  "pass_times ar ns passes n =
     ar_sort ar (map (\<lambda>i. ar_div ar (ar_of_nat ar (ns i)) (ar_of_nat ar n)) [0..<passes])"

definition median :: "'d list \<Rightarrow> 'd" where
  "median v = v ! (length v div 2)"

text \<open>The report of a measured run is always defined: its times can be sorted and there is one.\<close>

lemma sorted_times:
  assumes laws: "double_laws ar" and "measured (ns_per_event ar ns mode) n passes s" and "0 < passes"
  shows "std_sort ar (bs_pass_ns s) = Some (pass_times ar (ns mode) passes n)"
    and "mset (pass_times ar (ns mode) passes n) = mset (bs_pass_ns s)"
    and "sorted_wrt (\<lambda>x y. \<not> ar_less ar y x) (pass_times ar (ns mode) passes n)"
    and "pass_times ar (ns mode) passes n \<noteq> []"
proof -
  have times: "ar_sort ar (bs_pass_ns s) = pass_times ar (ns mode) passes n"
    using assms(2) by (simp add: measured_def ns_per_event_def pass_times_def)
  have "strict_weak (ar_less ar) (bs_pass_ns s)"
    using assms(2) quotients_sortable [OF laws, of "ns mode" n "[0..<passes]"]
    by (simp add: measured_def ns_per_event_def)
  then show v: "std_sort ar (bs_pass_ns s) = Some (pass_times ar (ns mode) passes n)"
    by (simp add: std_sort_def times)
  note S = std_sort_SomeD [OF laws v]
  from S show "mset (pass_times ar (ns mode) passes n) = mset (bs_pass_ns s)"
    and "sorted_wrt (\<lambda>x y. \<not> ar_less ar y x) (pass_times ar (ns mode) passes n)" by simp_all
  have "length (pass_times ar (ns mode) passes n) = passes"
    using assms(2) S(1) by (metis diff_zero length_map length_upt measured_def size_mset)
  with assms(3) show "pass_times ar (ns mode) passes n \<noteq> []" by auto
qed

text \<open>The lines of a run over \<open>n\<close> events and \<open>bytes\<close> record bytes, from the sorted times of its modes.\<close>

definition mode_line :: "'d arith \<Rightarrow> string \<Rightarrow> nat \<Rightarrow> nat \<Rightarrow> 'd list \<Rightarrow> 'd bench_line" where
  "mode_line ar label n bytes v =
     BenchReport label n (hd v) (median v) (last v)
       (ar_div ar (ar_div ar (ar_of_nat ar (10 ^ 9)) (hd v)) (ar_of_nat ar (10 ^ 6)))
       (ar_div ar (ar_div ar (ar_of_nat ar (10 ^ 9)) (median v)) (ar_of_nat ar (10 ^ 6)))
       (ar_div ar (ar_div ar (ar_of_nat ar bytes) (ar_mul ar (ar_mul ar (median v) (ar_nano ar)) (ar_of_nat ar n)))
         (ar_of_nat ar (1024 * 1024)))"

definition summary_lines :: "'d arith \<Rightarrow> nat \<Rightarrow> nat \<Rightarrow> (bench_mode \<Rightarrow> 'd list) \<Rightarrow> 'd bench_line list" where
  "summary_lines ar n bytes v =
     [BenchBlank, mode_line ar ''A stream'' n bytes (v ModeA), mode_line ar ''B in-mem'' n bytes (v ModeB),
      mode_line ar ''C mmap'' n bytes (v ModeC), ParityOk n,
      Decomposition (median (v ModeA)) (median (v ModeC)) (median (v ModeB))
        (ar_sub ar (median (v ModeA)) (median (v ModeC))) (ar_sub ar (median (v ModeC)) (median (v ModeB)))]"

lemma report_measured:
  assumes "double_laws ar" and m: "measured (ns_per_event ar ns mode) n passes s" and "0 < passes"
  shows "report ar label s =
    Some (mode_line ar label n (bs_record_bytes s) (pass_times ar (ns mode) passes n))"
  using sorted_times [OF assms] m
  by (simp add: report_def vec_defs Let_def mode_line_def median_def measured_def)

lemma bench_summary_lines:
  assumes laws: "double_laws ar" and pos: "0 < passes"
    and "measured_all (ns_per_event ar ns) n bytes passes (a, b, c)"
  shows "bench_summary ar a b c = Some (summary_lines ar n bytes (\<lambda>mode. pass_times ar (ns mode) passes n))"
proof -
  from assms(3) have a: "measured (ns_per_event ar ns ModeA) n passes a"
    and b: "measured (ns_per_event ar ns ModeB) n passes b" "bs_record_bytes b = bytes"
    and c: "measured (ns_per_event ar ns ModeC) n passes c"
    by (simp_all add: measured_all_def)
  note T = sorted_times [OF laws a pos] sorted_times [OF laws b(1) pos] sorted_times [OF laws c pos]
  have R: "report ar l (a\<lparr>bs_record_bytes := m\<rparr>) = Some (mode_line ar l n m (pass_times ar (ns ModeA) passes n))"
    "report ar l b = Some (mode_line ar l n (bs_record_bytes b) (pass_times ar (ns ModeB) passes n))"
    "report ar l (c\<lparr>bs_record_bytes := m\<rparr>) = Some (mode_line ar l n m (pass_times ar (ns ModeC) passes n))" for l m
    using report_measured [OF laws, of ns ModeA n passes "a\<lparr>bs_record_bytes := m\<rparr>"] a
      report_measured [OF laws b(1) pos]
      report_measured [OF laws, of ns ModeC n passes "c\<lparr>bs_record_bytes := m\<rparr>"] c pos
    by simp_all
  have "bs_events a = n" "bs_events c = n"
    using a c by (simp_all add: measured_def)
  with T R b(2) show ?thesis
    by (simp add: bench_summary_def vec_defs summary_lines_def median_def)
qed

text \<open>The lines and the exit code that a file calls for.\<close>

definition bench_lines ::
    "'d arith \<Rightarrow> (bench_mode \<Rightarrow> nat \<Rightarrow> nat) \<Rightarrow> 'os platform \<Rightarrow> 'os \<Rightarrow> path \<Rightarrow> bytes \<Rightarrow> nat \<Rightarrow> int \<Rightarrow>
      'd bench_line list \<Rightarrow> int \<Rightarrow> bool" where
  "bench_lines ar ns pf os p f chunk passes out code \<longleftrightarrow>
     (case bench_input chunk f of
       Inl err \<Rightarrow> out = [bench_header ar p f chunk passes, BenchError (what_stream err)] \<and> code = 1
     | Inr body \<Rightarrow>
         (\<exists>err. pass_refused pf p (2 + nat passes) os err \<and>
            out = [bench_header ar p f chunk passes, BenchError (what_mmap err)] \<and> code = 1) \<or>
         (\<nexists>err. pass_refused pf p (2 + nat passes) os err) \<and> code = 0 \<and>
            out = bench_header ar p f chunk passes #
              summary_lines ar (length (stream_events body)) (record_bytes body)
                (\<lambda>mode. pass_times ar (ns mode) (nat passes) (length (stream_events body))))"

text \<open>\<open>main\<close> on arguments it accepts.\<close>

lemma bench_main_outcome:
  assumes laws: "supported_platform pf handles files" and same: "files os = fs"
    and doubles: "double_laws ar"
    and args: "bench_passes args = Some passes" "bench_chunk args = Some chunk" "chunk \<noteq> 0" "1 \<le> passes"
    and f: "fs p = Some f"
  shows "\<exists>out code os'. bench_main ar ns fs pf os (prog # p # args) = Some (out, code, os') \<and>
    handles os' = handles os \<and> pf_mem pf os' = pf_mem pf os \<and>
    bench_lines ar ns pf os p f chunk passes out code"
proof -
  have pos: "0 < chunk" "0 < nat passes" using args(3,4) by simp_all
  obtain res os' where run: "bench_run (ns_per_event ar ns) fs pf os p f (nat passes) chunk = Some (res, os')"
    and effect: "handles os' = handles os" "pf_mem pf os' = pf_mem pf os"
    and out: "case bench_input chunk f of
       Inl err \<Rightarrow> res = Inl (what_stream err)
     | Inr body \<Rightarrow>
         (case res of
            Inl err \<Rightarrow> err \<in> what_mmap ` {e. pass_refused pf p (2 + nat passes) os e}
          | Inr abc \<Rightarrow> (\<forall>e. \<not> pass_refused pf p (2 + nat passes) os e) \<and>
              measured_all (ns_per_event ar ns) (length (stream_events body)) (record_bytes body)
                (nat passes) abc)"
    using bench_run_outcome [OF laws same pos(1) f pos(2)] by blast
  have main: "bench_main ar ns fs pf os (prog # p # args) =
      (case res of
         Inl err \<Rightarrow> Some ([bench_header ar p f chunk passes, BenchError err], 1, os')
       | Inr (a, b, c) \<Rightarrow>
           map_option (\<lambda>summary. (bench_header ar p f chunk passes # summary, 0, os')) (bench_summary ar a b c))"
    using args f run
    by (auto simp: bench_main.simps slurp_def Let_def map_conv_bind_option comp_def split: sum.splits)
  show ?thesis
  proof (cases "bench_input chunk f")
    case (Inl err)
    with out main effect show ?thesis by (simp add: bench_lines_def)
  next
    case (Inr body)
    show ?thesis
    proof (cases res)
      case (Inl err)
      with Inr out main effect show ?thesis by (auto simp: bench_lines_def)
    next
      case res: (Inr abc)
      obtain a b c where abc: "abc = (a, b, c)" by (cases abc)
      with Inr res out have "measured_all (ns_per_event ar ns) (length (stream_events body))
          (record_bytes body) (nat passes) (a, b, c)"
        by auto
      from bench_summary_lines [OF doubles pos(2) this] Inr res abc main effect out show ?thesis
        by (simp add: bench_lines_def)
    qed
  qed
qed

subsection \<open>The text of a run\<close>

text \<open>What a run prints, written out from its numbers: the line of the arguments, the block of a mode
  with \<open>n\<close> events from its sorted times, and the whole report.\<close>

definition header_text :: "'d arith \<Rightarrow> path \<Rightarrow> nat \<Rightarrow> nat \<Rightarrow> int \<Rightarrow> string" where
  "header_text ar p bytes chunk passes =
     ''bench_dbn: file='' @ p @
     ''  size='' @ ar_show ar 0 1 (ar_div ar (ar_of_nat ar bytes) (ar_of_nat ar 1048576)) @
     '' MB  chunk='' @ decimal chunk @ '' B  passes='' @ decimal_int passes @ [newline]"

definition mode_text :: "'d arith \<Rightarrow> string \<Rightarrow> nat \<Rightarrow> nat \<Rightarrow> 'd list \<Rightarrow> string" where
  "mode_text ar label n bytes v =
     (let billion = ar_of_nat ar 1000000000; million = ar_of_nat ar 1000000;
          fastest = ar_div ar billion (hd v);
          typical = ar_div ar billion (median v);
          seconds = ar_mul ar (ar_mul ar (median v) (ar_nano ar)) (ar_of_nat ar n)
      in ''  '' @ label @ '' events='' @ decimal n @
         ''  ns/event[min|med|max]= '' @ ar_show ar 6 1 (hd v) @
         '' | '' @ ar_show ar 6 1 (median v) @
         '' | '' @ ar_show ar 6 1 (last v) @ [newline] @
         ''             peak= '' @ ar_show ar 6 2 (ar_div ar fastest million) @
         '' M ev/s   typical= '' @ ar_show ar 6 2 (ar_div ar typical million) @
         '' M ev/s   ~'' @
         ar_show ar 6 0 (ar_div ar (ar_div ar (ar_of_nat ar bytes) seconds) (ar_of_nat ar 1048576)) @
         '' MB/s'' @ [newline])"

definition report_text ::
    "'d arith \<Rightarrow> nat \<Rightarrow> nat \<Rightarrow> 'd list \<Rightarrow> 'd list \<Rightarrow> 'd list \<Rightarrow> string" where
  "report_text ar n bytes a b c =
     [newline] @
     mode_text ar ''A stream  '' n bytes a @
     mode_text ar ''B in-mem  '' n bytes b @
     mode_text ar ''C mmap    '' n bytes c @
     ''  parity OK: stream and mmap agree on '' @ decimal n @ '' events'' @ [newline] @
     [newline] @
     ''  decomposition (median ns/event):'' @ [newline] @
     ''    A streaming e2e     = '' @ ar_show ar 6 1 (median a) @ [newline] @
     ''    C mmap e2e          = '' @ ar_show ar 6 1 (median c) @ [newline] @
     ''    B framing+decode    = '' @ ar_show ar 6 1 (median b) @ ''  (CPU floor)'' @ [newline] @
     ''    A - C (mmap win)    = '' @ ar_show ar 6 1 (ar_sub ar (median a) (median c)) @
     ''  <- MEASURED'' @ [newline] @
     ''    C - B (map residual)= '' @ ar_show ar 6 1 (ar_sub ar (median c) (median b)) @ [newline]"

lemma bench_render_header:
  "bench_on_stdout (bench_header ar p f chunk passes)"
  "bench_render ar prog (bench_header ar p f chunk passes) = header_text ar p (length f) chunk passes"
  by (simp_all add: bench_header_def header_text_def)

lemma bench_render_mode:
  assumes "length label \<le> 10"
  shows "bench_render ar prog (mode_line ar label n bytes v) =
    mode_text ar (label @ replicate (10 - length label) CHR '' '') n bytes v"
  by (simp add: mode_line_def mode_text_def pad_right_def Let_def)

lemma bench_render_summary:
  "filter bench_on_stdout (summary_lines ar n bytes v) = summary_lines ar n bytes v"
  "filter (\<lambda>l. \<not> bench_on_stdout l) (summary_lines ar n bytes v) = []"
  "concat (map (bench_render ar prog) (summary_lines ar n bytes v)) =
    report_text ar n bytes (v ModeA) (v ModeB) (v ModeC)"
proof -
  show "filter bench_on_stdout (summary_lines ar n bytes v) = summary_lines ar n bytes v"
    "filter (\<lambda>l. \<not> bench_on_stdout l) (summary_lines ar n bytes v) = []"
    by (simp_all add: summary_lines_def mode_line_def)
  have "replicate 2 CHR '' '' = ''  ''" "replicate 4 CHR '' '' = ''    ''"
    by (simp_all add: numeral_eq_Suc)
  then show "concat (map (bench_render ar prog) (summary_lines ar n bytes v)) =
      report_text ar n bytes (v ModeA) (v ModeB) (v ModeC)"
    by (simp add: summary_lines_def bench_render_mode report_text_def)
qed

lemma report_text_ends:
  "\<exists>before. report_text ar n bytes a b c = before @
     ''    A streaming e2e     = '' @ ar_show ar 6 1 (median a) @ [newline] @
     ''    C mmap e2e          = '' @ ar_show ar 6 1 (median c) @ [newline] @
     ''    B framing+decode    = '' @ ar_show ar 6 1 (median b) @ ''  (CPU floor)'' @ [newline] @
     ''    A - C (mmap win)    = '' @ ar_show ar 6 1 (ar_sub ar (median a) (median c)) @
     ''  <- MEASURED'' @ [newline] @
     ''    C - B (map residual)= '' @ ar_show ar 6 1 (ar_sub ar (median c) (median b)) @ [newline]"
  unfolding report_text_def append_assoc [symmetric] by (rule exI, rule refl)

text \<open>A clock for the example: the streaming mode takes 90, 91 and 92 ns for its passes, and so on.\<close>

fun ex_clock :: "bench_mode \<Rightarrow> nat \<Rightarrow> nat" where
  "ex_clock ModeA i = 90 + i"
| "ex_clock ModeB i = 52 - 2 * i"
| "ex_clock ModeC i = 70 + i"

lemma ex_medians:
  "median (pass_times ex_arith (ex_clock ModeA) 3 (Suc 0)) = Fin 91"
  "median (pass_times ex_arith (ex_clock ModeB) 3 (Suc 0)) = Fin 50"
  "median (pass_times ex_arith (ex_clock ModeC) 3 (Suc 0)) = Fin 71"
  by (simp_all add: median_def pass_times_def ex_arith_def upt_conv_Cons)

lemma ex_arith_eval:
  "ar_show ex_arith w p (Fin a) = decimal_int \<lfloor>a\<rfloor>"
  "ar_sub ex_arith (Fin a) (Fin b) = Fin (a - b)"
  by (simp_all add: ex_arith_def)

lemma ex_decimals:
  "decimal_int 91 = ''91''" "decimal_int 71 = ''71''" "decimal_int 50 = ''50''"
  "decimal_int 20 = ''20''" "decimal_int 21 = ''21''"
  by code_simp+

subsection \<open>Properties\<close>

text \<open>(C27) The parity gate cannot fail. When the two ways to open a file see the same files and the
  chunk size is not 0, the benchmark ends, never prints that the streaming and the mapped reader
  disagree, and when it succeeds it reports the number of events of the stream; whatever happens,
  every descriptor it opened is closed and every mapping is gone.\<close>

theorem bench_parity:
  assumes "supported_platform pf handles files" and "files os = fs" and "double_laws ar"
    and "bench_passes args = Some passes" and "bench_chunk args = Some chunk" and "chunk \<noteq> 0"
  shows "\<exists>out code os'. bench_main ar ns fs pf os (prog # p # args) = Some (out, code, os') \<and>
    (\<forall>a c. ParityFail a c \<notin> set out) \<and> handles os' = handles os \<and> pf_mem pf os' = pf_mem pf os \<and>
    (code = 0 \<longrightarrow> (\<exists>f body. fs p = Some f \<and>
       parse_prologue f = Inr body \<and> ParityOk (length (stream_events body)) \<in> set out))"
proof (cases "1 \<le> passes \<and> fs p \<noteq> None")
  case False
  with assms(4,5) show ?thesis by (auto simp: bench_main.simps slurp_def)
next
  case True
  then obtain f where f: "fs p = Some f" and "1 \<le> passes" by auto
  from bench_main_outcome [OF assms(1-6) this(2,1)] obtain out code os' where
    main: "bench_main ar ns fs pf os (prog # p # args) = Some (out, code, os')"
    "handles os' = handles os" "pf_mem pf os' = pf_mem pf os"
    and out: "bench_lines ar ns pf os p f chunk passes out code"
    by blast
  show ?thesis
  proof (cases "bench_input chunk f")
    case (Inl err)
    with out main show ?thesis by (simp add: bench_lines_def bench_header_def)
  next
    case (Inr body)
    with out f have "(\<forall>a c. ParityFail a c \<notin> set out) \<and>
        (code = 0 \<longrightarrow> ParityOk (length (stream_events body)) \<in> set out)"
      by (auto simp: bench_lines_def bench_header_def summary_lines_def mode_line_def)
    moreover have "parse_prologue f = Inr body"
      using Inr by (simp add: bench_input_def split: if_splits)
    ultimately show ?thesis using main f by blast
  qed
qed

theorem bench_parity_witness:
  "\<exists>out code os'. bench_main ex_arith (\<lambda>_ i. 90 + i) (\<lambda>_. Some (prologue_bytes [])) (posix_platform ex_posix)
      (ex_start (\<lambda>_. Some (prologue_bytes []))) [''bench_dbn'', ''f'', ''3''] = Some (out, code, os') \<and>
    (\<forall>a c. ParityFail a c \<notin> set out) \<and> ex_mem os' = Map.empty"
proof -
  have "bench_passes [''3''] = Some 3" and "bench_chunk [''3''] = Some (64 * 1024)"
    by (simp_all add: bench_passes_def bench_chunk_def c_number_eval)
  from bench_parity [OF ex_supported(1) ex_files_start ex_double_laws this, of "\<lambda>_ i. 90 + i"
      "\<lambda>_. Some (prologue_bytes [])" "''bench_dbn''" "''f''"] show ?thesis
    unfolding ex_posix_mem ex_mem_start by force
qed

text \<open>(C34) The whole benchmark process and every byte it prints, for every file system, clock and
  arguments with a chunk size but 0: it ends; fewer than one pass and a file that cannot be opened
  are refused with a message on \<open>stderr\<close> and nothing on \<open>stdout\<close>. A chunk size no vector can have
  (such as -1, which wraps around) or a bad prologue leaves the header on \<open>stdout\<close>, the message on
  \<open>stderr\<close> and the exit code 1, and so does a mapping that the operating system refuses to one of the
  two warm-up passes or the timed ones, and only then. Otherwise it exits with 0, and \<open>stdout\<close> holds
  the header and the report: the number of events, the best, median and worst time of each mode, the
  throughputs of the best and the median pass over the bytes of the whole records, the parity line, and
  the decomposition of the medians. A file without events, whose times are infinite or NaN, is no
  exception.\<close>

theorem bench_process_report:
  assumes "supported_platform pf handles files" and "files os = fs" and "double_laws ar"
    and "bench_passes args = Some passes" and "bench_chunk args = Some chunk" and "chunk \<noteq> 0"
  shows "\<exists>r os'. bench_process ar ns fs pf os (prog # p # args) = Some (r, os') \<and>
    (if passes < 1 then r = \<lparr> pr_stdout = [],
         pr_stderr = ''bench_dbn: passes must be >= 1'' @ [newline], pr_exit = 2 \<rparr>
     else case fs p of
       None \<Rightarrow> r = \<lparr> pr_stdout = [],
         pr_stderr = ''bench_dbn error: bench_dbn: cannot open '' @ p @ [newline], pr_exit = 1 \<rparr>
     | Some f \<Rightarrow>
         (case bench_input chunk f of
            Inl err \<Rightarrow> r = \<lparr> pr_stdout = header_text ar p (length f) chunk passes,
              pr_stderr = ''bench_dbn error: '' @ what_stream err @ [newline], pr_exit = 1 \<rparr>
          | Inr body \<Rightarrow>
              (\<exists>err. pass_refused pf p (2 + nat passes) os err \<and>
                 r = \<lparr> pr_stdout = header_text ar p (length f) chunk passes,
                   pr_stderr = ''bench_dbn error: '' @ what_mmap err @ [newline], pr_exit = 1 \<rparr>) \<or>
              (\<nexists>err. pass_refused pf p (2 + nat passes) os err) \<and>
              (let n = length (stream_events body);
                   times = (\<lambda>mode. pass_times ar (ns mode) (nat passes) n)
               in r = \<lparr> pr_stdout = header_text ar p (length f) chunk passes @
                     report_text ar n (record_bytes body) (times ModeA) (times ModeB) (times ModeC),
                   pr_stderr = [], pr_exit = 0 \<rparr>)))"
proof (cases "1 \<le> passes \<and> fs p \<noteq> None")
  case False
  with assms(4,5) show ?thesis by (auto simp: bench_main.simps slurp_def)
next
  case True
  then obtain f where f: "fs p = Some f" and "1 \<le> passes" by auto
  from bench_main_outcome [OF assms(1-6) this(2,1)] obtain out code os' where
    main: "bench_main ar ns fs pf os (prog # p # args) = Some (out, code, os')"
    and out: "bench_lines ar ns pf os p f chunk passes out code"
    by blast
  note rendered = bench_render_header bench_render_summary
  show ?thesis
  proof (cases "bench_input chunk f")
    case (Inl err)
    with out main f \<open>1 \<le> passes\<close> show ?thesis by (simp add: bench_lines_def rendered)
  next
    case (Inr body)
    show ?thesis
    proof (cases "\<exists>err. pass_refused pf p (2 + nat passes) os err")
      case True
      with Inr out obtain err where "pass_refused pf p (2 + nat passes) os err"
        "out = [bench_header ar p f chunk passes, BenchError (what_mmap err)]" "code = 1"
        unfolding bench_lines_def by auto
      with main f Inr \<open>1 \<le> passes\<close> show ?thesis by (auto simp: rendered)
    next
      case False
      with Inr out have "code = 0" "out = bench_header ar p f chunk passes #
          summary_lines ar (length (stream_events body)) (record_bytes body)
            (\<lambda>mode. pass_times ar (ns mode) (nat passes) (length (stream_events body)))"
        unfolding bench_lines_def by auto
      with False main f Inr \<open>1 \<le> passes\<close> show ?thesis
        by (simp add: rendered Let_def comp_def del: add_2_eq_Suc)
    qed
  qed
qed

theorem bench_process_report_witness:
  "\<exists>r os' before. bench_process ex_arith ex_clock (\<lambda>_. Some sample_file) (posix_platform ex_posix)
      (ex_start (\<lambda>_. Some sample_file)) [''bench_dbn'', ''f'', ''3''] = Some (r, os') \<and>
    pr_stdout r = before @
      ''    A streaming e2e     = 91'' @ [newline] @
      ''    C mmap e2e          = 71'' @ [newline] @
      ''    B framing+decode    = 50  (CPU floor)'' @ [newline] @
      ''    A - C (mmap win)    = 20  <- MEASURED'' @ [newline] @
      ''    C - B (map residual)= 21'' @ [newline] \<and>
    pr_stderr r = [] \<and> pr_exit r = 0"
proof -
  have args: "bench_passes [''3''] = Some 3" "bench_chunk [''3''] = Some (64 * 1024)"
    by (simp_all add: bench_passes_def bench_chunk_def c_number_eval)
  have body: "bench_input (64 * 1024) sample_file = Inr (feed_bytes sample_items)"
    by (simp add: bench_input_def parse_sample vector_max_size_def)
  have ok: "\<not> pass_refused (posix_platform ex_posix) ''f'' m (ex_start (\<lambda>_. Some sample_file)) err" for m err
    by (rule ex_pass_accepted) simp
  let ?times = "\<lambda>mode. pass_times ex_arith (ex_clock mode) 3 (Suc 0)"
  obtain os' where "bench_process ex_arith ex_clock (\<lambda>_. Some sample_file) (posix_platform ex_posix)
      (ex_start (\<lambda>_. Some sample_file)) [''bench_dbn'', ''f'', ''3''] =
    Some (\<lparr> pr_stdout = header_text ex_arith ''f'' (length sample_file) (64 * 1024) 3 @
        report_text ex_arith (Suc 0) (record_bytes (feed_bytes sample_items))
          (?times ModeA) (?times ModeB) (?times ModeC), pr_stderr = [], pr_exit = 0 \<rparr>, os')"
    using bench_process_report [OF ex_supported(1) ex_files_start ex_double_laws args, of ex_clock
      "\<lambda>_. Some sample_file" "''bench_dbn''" "''f''"] body ok
    by (auto simp del: bench_process.simps simp: sample_events)
  moreover obtain before where "report_text ex_arith (Suc 0) (record_bytes (feed_bytes sample_items))
      (?times ModeA) (?times ModeB) (?times ModeC) = before @
      ''    A streaming e2e     = '' @ ''91'' @ [newline] @
      ''    C mmap e2e          = '' @ ''71'' @ [newline] @
      ''    B framing+decode    = '' @ ''50'' @ ''  (CPU floor)'' @ [newline] @
      ''    A - C (mmap win)    = '' @ ''20'' @ ''  <- MEASURED'' @ [newline] @
      ''    C - B (map residual)= '' @ ''21'' @ [newline]"
    using report_text_ends [where ar = ex_arith and a = "?times ModeA" and b = "?times ModeB" and c = "?times ModeC"]
    unfolding ex_medians ex_arith_eval by (fastforce simp: ex_decimals)
  ultimately show ?thesis by auto
qed

text \<open>(C35) The reported times per event are order statistics of the passes, with any number of events:
  after a run with at least one pass the times can be sorted and the report is defined; the printed
  best, median and worst are times of actual passes, no pass is less than the best or greater than
  the worst, and neither the passes faster than the median nor those slower than it are more than
  half. Without events, when a time is infinite or a NaN, this holds as well.\<close>

theorem report_order_statistics:
  assumes "double_laws ar" and "measured (ns_per_event ar ns mode) n passes s" and "0 < passes"
  shows "\<exists>best med worst peak typ mbps.
    report ar label s = Some (BenchReport label n best med worst peak typ mbps) \<and>
    {best, med, worst} \<subseteq> set (bs_pass_ns s) \<and>
    (\<forall>t \<in> set (bs_pass_ns s). \<not> ar_less ar t best \<and> \<not> ar_less ar worst t) \<and>
    2 * length (filter (\<lambda>t. ar_less ar t med) (bs_pass_ns s)) \<le> passes \<and>
    2 * length (filter (\<lambda>t. ar_less ar med t) (bs_pass_ns s)) \<le> passes"
proof -
  obtain v where v: "std_sort ar (bs_pass_ns s) = Some v" "mset v = mset (bs_pass_ns s)"
    "sorted_wrt (\<lambda>x y. \<not> ar_less ar y x) v" "v \<noteq> []"
    using sorted_times [OF assms] by blast
  have n: "bs_events s = n" and passes: "length (bs_pass_ns s) = passes"
    using assms(2) by (simp_all add: measured_def)
  have set: "set v = set (bs_pass_ns s)" and len: "length v = passes"
    using mset_eq_setD [OF v(2)] mset_eq_length [OF v(2)] passes by simp_all
  have same: "length (filter P v) = length (filter P (bs_pass_ns s))" for P
    using v(2) by (metis mset_filter size_mset)
  have mid: "passes div 2 < length v" using len assms(3) by simp
  note asym = less_asym [OF assms(1)]
  note M = sorted_positions [OF v(3) asym mid, unfolded same len]
  have "hd v \<in> set v" "v ! (passes div 2) \<in> set v" "last v \<in> set v"
    using v(4) mid by simp_all
  moreover have "\<forall>t \<in> set v. \<not> ar_less ar t (hd v) \<and> \<not> ar_less ar (last v) t"
    using sorted_ends [OF v(3) asym] by blast
  moreover have "2 * length (filter (\<lambda>t. ar_less ar t (v ! (passes div 2))) (bs_pass_ns s)) \<le> passes"
    and "2 * length (filter (\<lambda>t. ar_less ar (v ! (passes div 2)) t) (bs_pass_ns s)) \<le> passes"
    using M by linarith+
  ultimately show ?thesis
    using v(1,4) n unfolding report_def vec_defs Let_def set by (simp add: len)
qed

theorem report_order_statistics_witness:
  "\<exists>best med worst peak typ mbps.
     report ex_arith ''B in-mem'' \<lparr> bs_events = 0, bs_record_bytes = 0, bs_pass_ns = [NaN, Inf, NaN] \<rparr> =
       Some (BenchReport ''B in-mem'' 0 best med worst peak typ mbps) \<and>
     {best, med, worst} \<subseteq> {NaN, Inf}"
proof -
  have "measured (ns_per_event ex_arith (\<lambda>_ i. i mod 2) ModeB) 0 3
      \<lparr> bs_events = 0, bs_record_bytes = 0, bs_pass_ns = [NaN, Inf, NaN] \<rparr>"
    by (simp add: measured_def ns_per_event_def ex_arith_def upt_conv_Cons)
  from report_order_statistics [OF ex_double_laws this, of "''B in-mem''"] show ?thesis by auto
qed

text \<open>(C36) An argument that \<open>atoll\<close> reads as 0, such as any text that starts with no number, is taken
  as the chunk size and makes the benchmark hang: on every file the readers accept that has any byte
  after its header the process never ends, instead of refusing the argument.\<close>

theorem bench_garbage_chunk_hangs:
  assumes "fs p = Some f" and "parse_prologue f = Inr body" and "8 < length f"
    and "c_atoi n = Some passes" and "1 \<le> passes" and "c_number chunk = 0"
  shows "bench_main ar ns fs pf os (prog # p # n # chunk # args) = None"
proof -
  have chunk: "bench_chunk (n # chunk # args) = Some 0" and passes: "bench_passes (n # chunk # args) = Some passes"
    using assms(4,6) by (simp_all add: bench_chunk_def bench_passes_def c_atoll_def)
  have "bench_run (ns_per_event ar ns) fs pf os p f (nat passes) 0 = None"
  proof (cases "metadata_length f = 0")
    case False
    with dbn_open_zero_metadata [of fs p f body] assms(1,2) show ?thesis
      by (simp add: bench_run_def numeral_2_eq_2)
  next
    case True
    then have "body \<noteq> []"
      using assms(2,3) by (auto simp: parse_prologue_def split: if_splits)
    then have "bench_in_memory (ns_per_event ar ns ModeB) f 0 2 = None"
      using record_start_parsed [OF assms(2)]
      by (simp add: bench_in_memory_def numeral_2_eq_2 in_memory_pass_zero_chunk)
    moreover have "\<exists>s. bench_end_to_end (ns_per_event ar ns ModeA) fs p 0 n s0 = Some (Inr s)" for n s0
      using bench_end_to_end_zero_chunk [of fs p f body] assms(1,2) True by blast
    then obtain s where "bench_end_to_end (ns_per_event ar ns ModeA) fs p 0 2 bench_zero = Some (Inr s)" by blast
    ultimately show ?thesis by (simp add: bench_run_def)
  qed
  with chunk passes assms(1,5) show ?thesis
    by (simp add: bench_main.simps slurp_def)
qed

theorem bench_garbage_chunk_hangs_witness:
  "bench_main ex_arith (\<lambda>_ i. 90 + i) (\<lambda>_. Some (prologue_bytes [1] @ []))  (posix_platform ex_posix)
     (ex_start (\<lambda>_. Some (prologue_bytes [1] @ []))) [''bench_dbn'', ''f'', ''20'', ''auto''] = None"
proof (rule bench_garbage_chunk_hangs)
  show "parse_prologue (prologue_bytes [1] @ []) = Inr []"
    by (rule parse_prologue_bytes) simp
  show "8 < length (prologue_bytes [1] @ [])"
    by (simp add: prologue_bytes_def)
  show "c_atoi ''20'' = Some 20" and "c_number ''auto'' = 0"
    by (simp_all add: c_number_eval)
qed simp_all

end
