(* ===== verification/Version.thy ===== *)
theory Version
  imports Main "HOL-Library.Sublist"
begin

text \<open>
  \<open>core/src/version.cpp\<close> and \<open>core/bindings/bindings.cpp\<close>, which hands the version to Python. The
  module object and the two functions of pybind11 that are called on it are a parameter.
\<close>

definition core_version :: string where
  "core_version = ''0.0.0''"

definition ping :: string where
  "ping = ''pong from trading_sim core v'' @ core_version"

text \<open>\<open>m.doc() = text\<close>, \<open>m.def(name, &f, text)\<close> for a function without arguments, and the call of a
  function of the module from Python.\<close>

record 'm pybind =
  pb_set_doc :: "'m \<Rightarrow> string \<Rightarrow> 'm"
  pb_def :: "'m \<Rightarrow> string \<Rightarrow> (unit \<Rightarrow> string) \<Rightarrow> string \<Rightarrow> 'm"
  pb_call :: "'m \<Rightarrow> string \<Rightarrow> string option"

text \<open>The body of \<open>PYBIND11_MODULE(trading_sim, m)\<close>; the source is UTF-8.\<close>

definition init_trading_sim :: "'m pybind \<Rightarrow> 'm \<Rightarrow> 'm" where
  "init_trading_sim pb m =
     (let m = pb_set_doc pb m
            (''trading_sim '' @ [CHR 0xE2, CHR 0x80, CHR 0x94] @ '' C++ core bindings (skeleton)'')
      in pb_def pb m ''ping'' (\<lambda>_. ping) ''Liveness check; returns a string produced by the C++ core.'')"

text \<open>
  The test of \<open>tests/python/\<close>: whether it passes, on a module that was imported. What a call of
  pybind11 returns for a \<open>std::string\<close> is a \<open>str\<close>, so only the second assertion can fail.
\<close>

definition test_import_and_ping :: "'m pybind \<Rightarrow> 'm \<Rightarrow> bool" where
  "test_import_and_ping pb m =
     (case pb_call pb (init_trading_sim pb m) ''ping'' of
        None \<Rightarrow> False
      | Some result \<Rightarrow> sublist ''pong'' result)"

text \<open>It passes, when a function that was defined can be called.\<close>

lemma ping_from_python:
  assumes "\<And>m name f doc. pb_call pb (pb_def pb m name f doc) name = Some (f ())"
  shows "pb_call pb (init_trading_sim pb m) ''ping'' = Some ''pong from trading_sim core v0.0.0''"
  by (simp add: init_trading_sim_def Let_def assms ping_def core_version_def)

lemma import_and_ping_passes:
  assumes "\<And>m name f doc. pb_call pb (pb_def pb m name f doc) name = Some (f ())"
  shows "test_import_and_ping pb m"
  using ping_from_python [of pb m, OF assms]
  by (simp add: test_import_and_ping_def sublist_code(3))

end
