(* ===== verification/UnitTests.thy ===== *)
theory UnitTests
  imports StreamReader Version Layout
begin

text \<open>
  The test programs of \<open>tests/cpp/\<close>, up to the readers, run on the model: \<open>test_smoke.cpp\<close>,
  \<open>test_event.cpp\<close>, \<open>test_dbn.cpp\<close>, and the cases of \<open>test_dbn_reader.cpp\<close> for \<open>frame_one\<close>, \<open>RecordAssembler\<close> and
  \<open>FileByteSource\<close>. Each is a function to its exit code, and the code 0 says that the model does on
  these inputs what the tests demand of the program.
\<close>

text \<open>\<open>if (failed) return code;\<close> in a row.\<close>

fun exit_code :: "(int \<times> bool) list \<Rightarrow> int" where
  "exit_code [] = 0"
| "exit_code ((code, failed) # checks) = (if failed then code else exit_code checks)"

text \<open>Cases one after the other; the first that fails ends the test.\<close>

fun run_cases :: "int option list \<Rightarrow> int option" where
  "run_cases [] = Some 0"
| "run_cases (c # cs) = do {
     code \<leftarrow> c;
     if code \<noteq> 0 then Some code else run_cases cs
   }"

subsection \<open>Version, events and the wire record\<close>

text \<open>The pointer to the version string is that of a literal, never null.\<close>

definition test_smoke :: int where
  "test_smoke = exit_code [(1, False), (2, length core_version = 0)]"

definition test_raw_event :: event where
  "test_raw_event =
     \<lparr> ev_ts_event = 1748955600000000000, ev_ts_recv = 0, ev_order_id = 123456789,
       ev_price = 500000000000, ev_size = 100, ev_sequence = 42, ev_action = Add, ev_side = Bid,
       ev_flags = 0 \<rparr>"

text \<open>The bytes \<open>pad\<close> are those \<open>memcpy\<close> finds behind the members.\<close>

definition test_event :: "bytes \<Rightarrow> int option" where
  "test_event pad = do {
     back \<leftarrow> load_event (store_event pad test_raw_event);
     Some (exit_code
       (map (\<lambda>c. (1, \<not> is_valid_action (chr c))) ''ACMTFR'' @
        map (\<lambda>c. (2, \<not> is_valid_side (chr c))) ''BAN'' @
        map (\<lambda>c. (3, is_valid_action (chr c))) (''acZX'' @ [CHR 0x00] @ '' 1'') @
        map (\<lambda>c. (4, is_valid_side (chr c))) (''bSZ'' @ [CHR 0x00]) @
        [(5, action_byte Add \<noteq> chr CHR ''A''),
         (6, action_byte Clear \<noteq> chr CHR ''R''),
         (7, side_byte Bid \<noteq> chr CHR ''B''),
         (8, cast_action (chr CHR ''M'') \<noteq> Some Modify),
         (9, ev_price back \<noteq> ev_price test_raw_event \<or> ev_order_id back \<noteq> ev_order_id test_raw_event),
         (10, ev_action back \<noteq> Add \<or> ev_side back \<noteq> Bid)]))
   }"

lemma test_smoke_passes: "test_smoke = 0"
  by (simp add: test_smoke_def core_version_def)

lemma test_event_passes: "length pad = 5 \<Longrightarrow> test_event pad = Some 0"
  using load_store_event [of pad test_raw_event "[]"]
  by (simp add: test_event_def is_valid_action_def is_valid_side_def cast_action_def)
     (simp add: test_raw_event_def)

definition test_price :: i64 where
  "test_price = 500000000000"

definition test_wire_bytes :: bytes where
  "test_wire_bytes =
     [14, 0xA0] @ replicate 22 0 @ le_bytes 8 test_price @ replicate 6 0 @
     [chr CHR ''A'', chr CHR ''B''] @ replicate 16 0"

definition test_good_wire :: wire_mbo where
  "test_good_wire =
     \<lparr> w_length = 0, w_rtype = 0xA0, w_publisher_id = 2, w_instrument_id = 7,
       w_ts_event = 1748955600000000000, w_order_id = 123456789, w_price = test_price, w_size = 100,
       w_flags = 0x80, w_channel_id = 1, w_action = chr CHR ''A'', w_side = chr CHR ''B'',
       w_ts_recv = 1748955600000000123, w_ts_in_delta = 50, w_sequence = 42 \<rparr>"

definition test_dbn :: "int option" where
  "test_dbn = do {
     r \<leftarrow> load_wire test_wire_bytes;
     ev \<leftarrow> to_event test_good_wire;
     r1 \<leftarrow> to_event (test_good_wire\<lparr>w_action := chr CHR ''Z''\<rparr>);
     r2 \<leftarrow> to_event (test_good_wire\<lparr>w_side := chr CHR ''X''\<rparr>);
     Some (exit_code
       ([(1, w_length r \<noteq> 14), (2, w_rtype r \<noteq> 0xA0), (3, w_price r \<noteq> test_price),
         (4, w_action r \<noteq> chr CHR ''A''), (5, w_side r \<noteq> chr CHR ''B'')] @
        (case ev of
           Inl err \<Rightarrow> [(6, True)]
         | Inr e \<Rightarrow>
             [(7, ev_ts_event e \<noteq> w_ts_event test_good_wire),
              (8, ev_ts_recv e \<noteq> w_ts_recv test_good_wire),
              (9, ev_order_id e \<noteq> w_order_id test_good_wire),
              (10, ev_price e \<noteq> w_price test_good_wire),
              (11, ev_size e \<noteq> w_size test_good_wire),
              (12, ev_sequence e \<noteq> w_sequence test_good_wire),
              (13, ev_flags e \<noteq> w_flags test_good_wire),
              (14, ev_action e \<noteq> Add), (15, ev_side e \<noteq> Bid)]) @
        (case r1 of Inr e \<Rightarrow> [(16, True)] | Inl err \<Rightarrow> [(17, err \<noteq> BadAction)]) @
        (case r2 of Inr e \<Rightarrow> [(18, True)] | Inl err \<Rightarrow> [(19, err \<noteq> BadSide)])))
   }"

lemma load_test_wire:
  "\<exists>r. load_wire test_wire_bytes = Some r \<and> w_length r = 14 \<and> w_rtype r = 0xA0 \<and>
    w_price r = test_price \<and> w_action r = chr CHR ''A'' \<and> w_side r = chr CHR ''B''"
  by (simp add: load_wire_def sizeof_wire_mbo_def load_field_def test_wire_bytes_def le_word_le_bytes)
     (simp add: le_word_def)

lemma test_dbn_passes: "test_dbn = Some 0"
  using load_test_wire
  by (auto simp: test_dbn_def to_event_def is_valid_action_def is_valid_side_def cast_action_def
      cast_side_def test_good_wire_def)

subsection \<open>The framer\<close>

text \<open>A buffer of \<open>n\<close> bytes, all 0 but the length and the type in front.\<close>

definition test_buffer :: "u8 \<Rightarrow> u8 \<Rightarrow> nat \<Rightarrow> bytes" where
  "test_buffer len rtype n = len # rtype # replicate (n - 2) 0"

definition frame_check :: "int \<Rightarrow> bytes \<Rightarrow> frame_status \<Rightarrow> int option" where
  "frame_check code buf status = do {
     r \<leftarrow> frame_one buf;
     Some (exit_code [(code, fr_status r \<noteq> status)])
   }"

definition frame_ok_check :: "int \<Rightarrow> int \<Rightarrow> int \<Rightarrow> bytes \<Rightarrow> u8 \<Rightarrow> nat \<Rightarrow> int option" where
  "frame_ok_check code1 code2 code3 buf rtype size_of = do {
     r \<leftarrow> frame_one buf;
     Some (exit_code [(code1, fr_status r \<noteq> FrameOk), (code2, fr_rtype r \<noteq> rtype),
       (code3, fr_record_size r \<noteq> size_of)])
   }"

text \<open>Cases 1 to 8; the last one does not look at the type.\<close>

definition test_framer :: "int option" where
  "test_framer = run_cases
     [frame_check 1 [] FrameNeedMore,
      frame_check 2 [14] FrameNeedMore,
      frame_ok_check 3 4 5 (test_buffer 14 0xA0 56) 0xA0 56,
      frame_check 6 (test_buffer 14 0xA0 44) FrameNeedMore,
      frame_check 7 (test_buffer 14 0xA0 55) FrameNeedMore,
      frame_check 8 (test_buffer 0 0xA0 8) FrameCorrupt,
      frame_ok_check 9 10 11 (test_buffer 4 0x15 16) 0x15 16,
      frame_check 12 (test_buffer 14 0xA0 100) FrameOk,
      do { r \<leftarrow> frame_one (test_buffer 14 0xA0 100);
           Some (exit_code [(13, fr_record_size r \<noteq> 56)]) }]"

lemma test_framer_passes: "test_framer = Some 0"
  by (simp add: test_framer_def frame_check_def frame_ok_check_def test_buffer_def frame_one_def
      byte_at_def size_mul_def)

subsection \<open>The assembler\<close>

text \<open>\<open>next()\<close>, and the check of the status it returns.\<close>

definition next_check :: "int \<Rightarrow> pull_status \<Rightarrow> assembler \<Rightarrow> (int \<times> view \<times> assembler) option" where
  "next_check code status a = do {
     (p, a) \<leftarrow> asm_next a;
     Some (exit_code [(code, pl_status p \<noteq> status)], pl_record p, a)
   }"

definition test_assembler_a :: "int option" where
  "test_assembler_a = do {
     a \<leftarrow> asm_append asm_empty (test_buffer 14 0xA0 56);
     (c20, v, a) \<leftarrow> next_check 20 PullRecord a;
     (c22, _, a) \<leftarrow> next_check 22 PullNeedMore a;
     run_cases [Some c20, Some (exit_code [(21, vw_len v \<noteq> 56)]), Some c22]
   }"

text \<open>The straddle: a record in two appends, with a sentinel in the second.\<close>

definition test_sentinel_record :: bytes where
  "test_sentinel_record = (test_buffer 14 0xA0 56)[50 := 0x7E]"

definition test_assembler_b :: "int option" where
  "test_assembler_b = do {
     a \<leftarrow> asm_append asm_empty (take 44 test_sentinel_record);
     (c23, _, a) \<leftarrow> next_check 23 PullNeedMore a;
     let c24 = exit_code [(24, buffered a \<noteq> 44)];
     a \<leftarrow> asm_append a (drop 44 test_sentinel_record);
     (c25, v, a) \<leftarrow> next_check 25 PullRecord a;
     r \<leftarrow> view_bytes a v;
     b \<leftarrow> byte_at r 50;
     run_cases [Some c23, Some c24, Some c25,
       Some (exit_code [(26, vw_len v \<noteq> 56), (27, b \<noteq> 0x7E), (28, buffered a \<noteq> 0)])]
   }"

definition test_assembler_c :: "int option" where
  "test_assembler_c = do {
     a \<leftarrow> asm_append asm_empty (test_buffer 14 0xA0 56 @ test_buffer 14 0xA0 56);
     (c29, _, a) \<leftarrow> next_check 29 PullRecord a;
     (c30, _, a) \<leftarrow> next_check 30 PullRecord a;
     (c31, _, a) \<leftarrow> next_check 31 PullNeedMore a;
     run_cases [Some c29, Some c30, Some c31]
   }"

definition test_assembler_d :: "int option" where
  "test_assembler_d = do {
     a \<leftarrow> asm_append asm_empty (test_buffer 0 0xA0 8);
     (c32, _, a) \<leftarrow> next_check 32 PullCorrupt a;
     Some c32
   }"

lemmas asm_eval = asm_append_def asm_next_def asm_empty_def next_check_def buffered_def view_bytes_def
  span_simps frame_one_def byte_at_def size_mul_def test_buffer_def

lemma test_assembler_passes:
  "test_assembler_a = Some 0" "test_assembler_b = Some 0"
  "test_assembler_c = Some 0" "test_assembler_d = Some 0"
  by (simp_all add: test_assembler_a_def test_assembler_b_def test_assembler_c_def test_assembler_d_def
      test_sentinel_record_def asm_eval Let_def nth_append)

subsection \<open>The byte source\<close>

text \<open>100 bytes, each with its index as the value, read back in pieces of 40.\<close>

definition test_payload :: bytes where
  "test_payload = map of_nat [0..<100]"

definition test_byte_source :: "file_system \<Rightarrow> path \<Rightarrow> int option" where
  "test_byte_source fs tmp =
     (case file_source_open fs tmp of
        Inl err \<Rightarrow> None
      | Inr src \<Rightarrow>
          let chunk = replicate 40 0;
              (n1, chunk1, src) = file_read src chunk;
              (n2, chunk2, src) = file_read src chunk1;
              (n3, chunk3, src) = file_read src chunk2;
              (n4, chunk4, src) = file_read src chunk3
          in Some (exit_code
               [(40, n1 \<noteq> 40), (41, chunk1 ! 0 \<noteq> 0), (42, chunk1 ! 39 \<noteq> 39),
                (43, n2 \<noteq> 40), (44, chunk2 ! 0 \<noteq> 40),
                (45, n3 \<noteq> 20), (46, chunk3 ! 19 \<noteq> 99),
                (47, n4 \<noteq> 0)]))"

definition test_missing :: "file_system \<Rightarrow> path \<Rightarrow> int option" where
  "test_missing fs missing =
     (case file_source_open fs missing of
        Inl err \<Rightarrow> Some (exit_code [(48, False)])
      | Inr src \<Rightarrow> Some (exit_code [(48, True)]))"

lemma test_byte_source_passes:
  assumes "fs tmp = Some test_payload"
  shows "test_byte_source fs tmp = Some 0"
  using assms
  by (simp add: test_byte_source_def file_source_open_eq file_read_def istream_read_def ifstream_fresh_def
      ifstream_good_def ifstream_delivers_def test_payload_def drop_map take_map Let_def nth_append)

lemma test_missing_passes: "fs missing = None \<Longrightarrow> test_missing fs missing = Some 0"
  by (simp add: test_missing_def file_source_open_eq)

end
