(* ===== verification/ReaderTests.thy ===== *)
theory ReaderTests
  imports UnitTests StreamIngest MmapIngest
begin

text \<open>
  The cases of \<open>tests/cpp/test_dbn_reader.cpp\<close> for the two readers, and the whole test program. The
  bodies of the cases are the same for both readers and run over any \<open>pull_reader\<close>. An exception
  that a case does not catch is \<open>None\<close>.
\<close>

subsection \<open>The files the tests write\<close>

definition make_mbo :: "char \<Rightarrow> char \<Rightarrow> u64 \<Rightarrow> i64 \<Rightarrow> wire_mbo" where
  "make_mbo action side order_id price =
     \<lparr> w_length = 14, w_rtype = 0xA0, w_publisher_id = 0, w_instrument_id = 0, w_ts_event = 0,
       w_order_id = order_id, w_price = price, w_size = 5, w_flags = 0, w_channel_id = 0,
       w_action = chr action, w_side = chr side, w_ts_recv = 0, w_ts_in_delta = 0, w_sequence = 0 \<rparr>"

text \<open>Two good records, and between them one of another type and one with a bad action.\<close>

definition mixed_body :: "(u64 \<times> i64) \<Rightarrow> (u64 \<times> i64) \<Rightarrow> (u64 \<times> i64) \<Rightarrow> bytes" where
  "mixed_body m0 bad m1 =
     store_wire (make_mbo CHR ''A'' CHR ''B'' (fst m0) (snd m0)) @ test_buffer 4 0x15 16 @
     store_wire (make_mbo CHR ''Z'' CHR ''B'' (fst bad) (snd bad)) @
     store_wire (make_mbo CHR ''C'' CHR ''A'' (fst m1) (snd m1))"

definition mixed_file :: "(u64 \<times> i64) \<Rightarrow> (u64 \<times> i64) \<Rightarrow> (u64 \<times> i64) \<Rightarrow> bytes" where
  "mixed_file m0 bad m1 = prologue_bytes (replicate 4 0) @ mixed_body m0 bad m1"

definition corrupt_body :: bytes where
  "corrupt_body = store_wire (make_mbo CHR ''A'' CHR ''B'' 77 700) @ replicate 8 0"

definition corrupt_file :: bytes where
  "corrupt_file = prologue_bytes [] @ corrupt_body"

definition version2_file :: bytes where
  "version2_file =
     [chr CHR ''D'', chr CHR ''B'', chr CHR ''N'', 2, 0, 0, 0, 0] @
     store_wire (make_mbo CHR ''A'' CHR ''B'' 1 100)"

subsection \<open>The bodies of the cases\<close>

definition case_mixed ::
    "int \<Rightarrow> ('r \<Rightarrow> (event option \<times> 'r) option) \<Rightarrow> ('r \<Rightarrow> bool) \<Rightarrow> 'r \<Rightarrow> int option" where
  "case_mixed base nxt failed r = do {
     (e0, r) \<leftarrow> nxt r;
     case e0 of None \<Rightarrow> Some base | Some e0 \<Rightarrow>
     if ev_order_id e0 \<noteq> 111 then Some (base + 1)
     else if ev_price e0 \<noteq> 1000 then Some (base + 2)
     else do {
       (e1, r) \<leftarrow> nxt r;
       case e1 of None \<Rightarrow> Some (base + 3) | Some e1 \<Rightarrow>
       if ev_order_id e1 \<noteq> 222 then Some (base + 4)
       else do {
         (e2, r) \<leftarrow> nxt r;
         Some (exit_code [(base + 5, e2 \<noteq> None), (base + 6, failed r)])
       }
     }
   }"

definition case_corrupt ::
    "int \<Rightarrow> ('r \<Rightarrow> (event option \<times> 'r) option) \<Rightarrow> ('r \<Rightarrow> bool) \<Rightarrow> 'r \<Rightarrow> int option" where
  "case_corrupt base nxt failed r = do {
     (e0, r) \<leftarrow> nxt r;
     case e0 of None \<Rightarrow> Some base | Some e0 \<Rightarrow>
     if ev_order_id e0 \<noteq> 77 then Some (base + 1)
     else do {
       (e1, r) \<leftarrow> nxt r;
       Some (exit_code [(base + 2, e1 \<noteq> None), (base + 3, \<not> failed r)])
     }
   }"

definition case_counts ::
    "int \<Rightarrow> ('r \<Rightarrow> (event option \<times> 'r) option) \<Rightarrow> ('r \<Rightarrow> ingest_stats) \<Rightarrow> 'r \<Rightarrow> int option" where
  "case_counts base nxt stats r = do {
     (es, r) \<leftarrow> drain nxt r;
     let st = stats r;
     Some (exit_code [(base, st_records st \<noteq> 4), (base + 1, st_events st \<noteq> 2),
       (base + 2, st_skipped_non_mbo st \<noteq> 1), (base + 3, st_skipped_malformed st \<noteq> 1)])
   }"

subsection \<open>The test program\<close>

text \<open>A case writes \<open>f\<close> to a path and opens a reader there; a case of a refused file returns \<open>code\<close> when
  the constructor does not throw, and catches \<open>std::runtime_error\<close> only.\<close>

definition on_stream ::
    "bytes \<Rightarrow> path \<Rightarrow> (file_byte_source dbn_reader \<Rightarrow> int option) \<Rightarrow> int option" where
  "on_stream f tmp body = do {
     res \<leftarrow> dbn_open [tmp \<mapsto> f] tmp default_chunk_size;
     case res of Inl err \<Rightarrow> None | Inr r \<Rightarrow> body r
   }"

definition stream_refuses :: "int \<Rightarrow> bytes \<Rightarrow> path \<Rightarrow> int option" where
  "stream_refuses code f tmp = do {
     res \<leftarrow> dbn_open [tmp \<mapsto> f] tmp default_chunk_size;
     case res of
       Inl err \<Rightarrow> if err = VectorTooLong then None else Some (exit_code [(code, False)])
     | Inr r \<Rightarrow> Some (exit_code [(code, True)])
   }"

definition on_mapping ::
    "'os platform \<Rightarrow> (file_system \<Rightarrow> 'os) \<Rightarrow> bytes \<Rightarrow> path \<Rightarrow>
      ((addr \<Rightarrow> bytes option) \<Rightarrow> mmap_reader \<Rightarrow> int option) \<Rightarrow> int option" where
  "on_mapping pf start f tmp body = do {
     (res, os) \<leftarrow> mmap_open pf (start [tmp \<mapsto> f]) tmp;
     case res of Inl err \<Rightarrow> None | Inr r \<Rightarrow> body (pf_mem pf os) r
   }"

definition mapping_refuses ::
    "int \<Rightarrow> 'os platform \<Rightarrow> (file_system \<Rightarrow> 'os) \<Rightarrow> bytes \<Rightarrow> path \<Rightarrow> int option" where
  "mapping_refuses code pf start f tmp = do {
     (res, os) \<leftarrow> mmap_open pf (start [tmp \<mapsto> f]) tmp;
     Some (exit_code [(code, case res of Inl err \<Rightarrow> False | Inr r \<Rightarrow> True)])
   }"

text \<open>\<open>main\<close>; \<open>start\<close> is the state of the operating system with the given files.\<close>

definition test_dbn_reader :: "'os platform \<Rightarrow> (file_system \<Rightarrow> 'os) \<Rightarrow> path \<Rightarrow> int option" where
  "test_dbn_reader pf start tmp =
     (let mixed = mixed_file (111, 1000) (999, 9999) (222, 2000);
          counted = mixed_file (1, 10) (2, 20) (3, 30)
      in run_cases
        [test_framer, test_assembler_a, test_assembler_b, test_assembler_c, test_assembler_d,
         test_byte_source [tmp \<mapsto> test_payload] tmp, test_missing Map.empty tmp,
         on_stream mixed tmp (case_mixed 50 (dbn_next file_read) dbn_failed),
         on_stream corrupt_file tmp (case_corrupt 60 (dbn_next file_read) dbn_failed),
         stream_refuses 64 version2_file tmp,
         on_mapping pf start mixed tmp (\<lambda>mem. case_mixed 70 (mmap_next mem) mmap_failed),
         on_mapping pf start corrupt_file tmp (\<lambda>mem. case_corrupt 80 (mmap_next mem) mmap_failed),
         mapping_refuses 90 pf start version2_file tmp,
         on_stream counted tmp (case_counts 100 (dbn_next file_read) dbn_stats),
         on_mapping pf start counted tmp (\<lambda>mem. case_counts 104 (mmap_next mem) mmap_stats)])"

subsection \<open>What the files hold\<close>

lemma make_mbo_whole [simp]: "whole_record (store_wire (make_mbo a s oid px))"
  by (simp add: whole_record_store_wire make_mbo_def)

lemma routing_good:
  assumes "chr a = action_byte x" and "chr s = side_byte y"
  shows "routing (store_wire (make_mbo a s oid px)) =
    Emit \<lparr> ev_ts_event = 0, ev_ts_recv = 0, ev_order_id = oid, ev_price = px, ev_size = 5,
      ev_sequence = 0, ev_action = x, ev_side = y, ev_flags = 0 \<rparr>"
  using assms by (simp add: routing_def route_store_wire make_mbo_def kMboRtype_def to_event_def)

lemma routing_bad:
  assumes "\<not> is_valid_action (chr a)"
  shows "routing (store_wire (make_mbo a s oid px)) = SkipMalformed"
  using assms by (simp add: routing_def route_store_wire make_mbo_def kMboRtype_def to_event_def)

lemma whole_other: "whole_record (test_buffer 4 0x15 16)"
  unfolding whole_record_def test_buffer_def by simp

lemma routing_other_buffer: "routing (test_buffer 4 0x15 16) = SkipNonMbo"
  by (rule routing_other [OF whole_other]) (simp add: test_buffer_def kMboRtype_def)

text \<open>What a stream holds, record by record.\<close>

lemma read_good:
  assumes "chr a = action_byte x" and "chr s = side_byte y"
  shows "\<exists>e. ev_order_id e = oid \<and> ev_price e = px \<and>
    stream_events (store_wire (make_mbo a s oid px) @ bs) = e # stream_events bs \<and>
    stream_corrupt (store_wire (make_mbo a s oid px) @ bs) = stream_corrupt bs \<and>
    (\<forall>st. stream_stats st (store_wire (make_mbo a s oid px) @ bs) =
       stream_stats (snd (tally st (Emit e))) bs)"
  by (simp add: stream_whole routing_good [OF assms] event_of_def del: tally.simps)

lemma read_bad:
  assumes "\<not> is_valid_action (chr a)"
  shows "stream_events (store_wire (make_mbo a s oid px) @ bs) = stream_events bs"
    and "stream_corrupt (store_wire (make_mbo a s oid px) @ bs) = stream_corrupt bs"
    and "stream_stats st (store_wire (make_mbo a s oid px) @ bs) =
      stream_stats (snd (tally st SkipMalformed)) bs"
  by (simp_all add: stream_whole routing_bad [OF assms] event_of_def del: tally.simps)

lemma read_other:
  "stream_events (test_buffer 4 0x15 16 @ bs) = stream_events bs"
  "stream_corrupt (test_buffer 4 0x15 16 @ bs) = stream_corrupt bs"
  "stream_stats st (test_buffer 4 0x15 16 @ bs) = stream_stats (snd (tally st SkipNonMbo)) bs"
  by (simp_all add: stream_whole whole_other routing_other_buffer event_of_def del: tally.simps)

lemma bad_Z: "\<not> is_valid_action (chr CHR ''Z'')"
  by (simp add: is_valid_action_def)

lemma mixed_body_holds:
  "\<exists>a b. stream_events (mixed_body m0 bad m1) = [a, b] \<and> \<not> stream_corrupt (mixed_body m0 bad m1) \<and>
    ev_order_id a = fst m0 \<and> ev_price a = snd m0 \<and> ev_order_id b = fst m1 \<and>
    stream_stats stats_zero (mixed_body m0 bad m1) =
      \<lparr> st_records = 4, st_events = 2, st_skipped_non_mbo = 1, st_skipped_malformed = 1 \<rparr>"
proof -
  obtain b where b: "ev_order_id b = fst m1"
    "stream_events (store_wire (make_mbo CHR ''C'' CHR ''A'' (fst m1) (snd m1)) @ []) = b # stream_events []"
    "stream_corrupt (store_wire (make_mbo CHR ''C'' CHR ''A'' (fst m1) (snd m1)) @ []) = stream_corrupt []"
    "\<And>st. stream_stats st (store_wire (make_mbo CHR ''C'' CHR ''A'' (fst m1) (snd m1)) @ []) =
       stream_stats (snd (tally st (Emit b))) []"
    using read_good [of "CHR ''C''" Cancel "CHR ''A''" Ask "fst m1" "snd m1" "[]"] by auto
  have "short_tail []" by (simp add: short_tail_def)
  note tail = stream_events_stop(1) [OF this] stream_stats_stop(1) [OF this] stream_corrupt_stop(1) [OF this]
  let ?rest = "test_buffer 4 0x15 16 @ store_wire (make_mbo CHR ''Z'' CHR ''B'' (fst bad) (snd bad)) @
     store_wire (make_mbo CHR ''C'' CHR ''A'' (fst m1) (snd m1))"
  obtain a where a: "ev_order_id a = fst m0" "ev_price a = snd m0"
    "stream_events (mixed_body m0 bad m1) = a # stream_events ?rest"
    "stream_corrupt (mixed_body m0 bad m1) = stream_corrupt ?rest"
    "\<And>st. stream_stats st (mixed_body m0 bad m1) = stream_stats (snd (tally st (Emit a))) ?rest"
    using read_good [of "CHR ''A''" Add "CHR ''B''" Bid "fst m0" "snd m0" ?rest]
    unfolding mixed_body_def by auto
  show ?thesis
    using b [unfolded append_Nil2] a tail
    by (simp add: read_other read_bad [OF bad_Z] stats_zero_def)
qed

lemma corrupt_body_holds:
  "\<exists>a. stream_events corrupt_body = [a] \<and> stream_corrupt corrupt_body \<and> ev_order_id a = 77"
proof -
  have "corrupt_tail (replicate 8 0)"
    by (simp add: corrupt_tail_def)
  then show ?thesis
    using read_good [of "CHR ''A''" Add "CHR ''B''" Bid 77 700 "replicate 8 0"]
    unfolding corrupt_body_def by auto
qed

lemma test_prologues:
  "parse_prologue (mixed_file m0 bad m1) = Inr (mixed_body m0 bad m1)"
  "parse_prologue corrupt_file = Inr corrupt_body"
  "parse_prologue version2_file = Inl (UnsupportedVersion 2)"
  unfolding mixed_file_def corrupt_file_def
  by (rule parse_prologue_bytes, simp, rule parse_prologue_bytes, simp)
     (simp add: version2_file_def parse_prologue_def kSupportedDbnVersion_def)

subsection \<open>The tests pass\<close>

context pull_reader begin

lemma next_gives:
  assumes "inv r" and "stream_events (rest r) = a # as"
  obtains r' where "nxt r = Some (Some a, r')" "inv r'" "stream_events (rest r') = as"
    "stream_corrupt (rest r') = stream_corrupt (rest r)" "failed r' = failed r"
proof -
  obtain e r' where n: "nxt r = Some (e, r')" using next_returns [OF assms(1)] by blast
  show ?thesis
  proof (cases e)
    case None
    with next_NoneD [OF assms(1) n [unfolded None]] assms(2) show ?thesis by simp
  next
    case (Some ev)
    with next_SomeD [OF assms(1) n [unfolded Some]] assms(2) n that show ?thesis by simp
  qed
qed

lemma next_ends:
  assumes "inv r" and "stream_events (rest r) = []"
  obtains r' where "nxt r = Some (None, r')" "failed r' = (failed r \<or> stream_corrupt (rest r))"
proof -
  obtain e r' where n: "nxt r = Some (e, r')" using next_returns [OF assms(1)] by blast
  show ?thesis
  proof (cases e)
    case None
    with next_NoneD [OF assms(1) n [unfolded None]] n that show ?thesis by simp
  next
    case (Some ev)
    with next_SomeD [OF assms(1) n [unfolded Some]] assms(2) show ?thesis by simp
  qed
qed

lemma case_mixed_passes:
  assumes "inv r" and "\<not> failed r" and "stream_events (rest r) = [a, b]" and "\<not> stream_corrupt (rest r)"
    and "ev_order_id a = 111" and "ev_price a = 1000" and "ev_order_id b = 222"
  shows "case_mixed base nxt failed r = Some 0"
proof -
  obtain r1 where r1: "nxt r = Some (Some a, r1)" "inv r1" "stream_events (rest r1) = [b]"
    "stream_corrupt (rest r1) = stream_corrupt (rest r)" "failed r1 = failed r"
    using next_gives [OF assms(1,3)] .
  obtain r2 where r2: "nxt r1 = Some (Some b, r2)" "inv r2" "stream_events (rest r2) = []"
    "stream_corrupt (rest r2) = stream_corrupt (rest r1)" "failed r2 = failed r1"
    using next_gives [OF r1(2,3)] .
  obtain r3 where "nxt r2 = Some (None, r3)" "failed r3 = (failed r2 \<or> stream_corrupt (rest r2))"
    using next_ends [OF r2(2,3)] .
  with r1 r2 assms show ?thesis by (simp add: case_mixed_def)
qed

lemma case_corrupt_passes:
  assumes "inv r" and "stream_events (rest r) = [a]" and "stream_corrupt (rest r)"
    and "ev_order_id a = 77"
  shows "case_corrupt base nxt failed r = Some 0"
proof -
  obtain r1 where r1: "nxt r = Some (Some a, r1)" "inv r1" "stream_events (rest r1) = []"
    "stream_corrupt (rest r1) = stream_corrupt (rest r)" "failed r1 = failed r"
    using next_gives [OF assms(1,2)] .
  obtain r2 where "nxt r1 = Some (None, r2)" "failed r2 = (failed r1 \<or> stream_corrupt (rest r1))"
    using next_ends [OF r1(2,3)] .
  with r1 assms show ?thesis by (simp add: case_corrupt_def)
qed

lemma case_counts_passes:
  assumes "inv r" and "stream_stats (stats r) (rest r) =
      \<lparr> st_records = 4, st_events = 2, st_skipped_non_mbo = 1, st_skipped_malformed = 1 \<rparr>"
  shows "case_counts base nxt stats r = Some 0"
  using drain_ingest [OF assms(1)] assms(2) by (auto simp: case_counts_def)

end

lemma on_stream_passes:
  assumes "parse_prologue f = Inr body"
    and "\<And>r. stream_inv r \<Longrightarrow> stream_rest file_pending r = body \<Longrightarrow> rd_stats r = stats_zero \<Longrightarrow>
      \<not> rd_failed r \<Longrightarrow> test r = Some 0"
  shows "on_stream f tmp test = Some 0"
  using dbn_open_parses [of default_chunk_size "[tmp \<mapsto> f]" tmp] assms
  by (auto simp: on_stream_def default_chunk_size_def)

lemma on_mapping_passes:
  assumes "parse_prologue f = Inr body"
    and "\<And>mem r. mmap_inv mem r \<Longrightarrow> mmap_rest mem r = body \<Longrightarrow> mm_stats r = stats_zero \<Longrightarrow>
      \<not> mm_failed r \<Longrightarrow> test mem r = Some 0"
  shows "on_mapping (posix_platform ex_posix) ex_start f tmp test = Some 0"
proof -
  have "f \<noteq> []" using assms(1) by (auto simp: parse_prologue_def)
  with mmap_open_ex [of "[tmp \<mapsto> f]" tmp f] assms show ?thesis
    unfolding on_mapping_def ex_posix_mem by auto
qed

lemma accessors: "dbn_failed = rd_failed" "dbn_stats = rd_stats" "mmap_failed = mm_failed" "mmap_stats = mm_stats"
  by (simp_all add: fun_eq_iff)

lemmas passes = on_stream_passes on_mapping_passes

lemma mixed_case_passes:
  assumes "parse_prologue f = Inr body" and "stream_events body = [a, b]" and "\<not> stream_corrupt body"
    and "ev_order_id a = 111" and "ev_price a = 1000" and "ev_order_id b = 222"
  shows "on_stream f tmp (case_mixed base (dbn_next file_read) dbn_failed) = Some 0"
    and "on_mapping (posix_platform ex_posix) ex_start f tmp
      (\<lambda>mem. case_mixed base (mmap_next mem) mmap_failed) = Some 0"
  unfolding accessors using assms
  by (auto intro!: passes [OF assms(1)] fsrc.sr.case_mixed_passes mm.case_mixed_passes)

lemma corrupt_case_passes:
  assumes "parse_prologue f = Inr body" and "stream_events body = [a]" and "stream_corrupt body"
    and "ev_order_id a = 77"
  shows "on_stream f tmp (case_corrupt base (dbn_next file_read) dbn_failed) = Some 0"
    and "on_mapping (posix_platform ex_posix) ex_start f tmp
      (\<lambda>mem. case_corrupt base (mmap_next mem) mmap_failed) = Some 0"
  unfolding accessors using assms
  by (auto intro!: passes [OF assms(1)] fsrc.sr.case_corrupt_passes mm.case_corrupt_passes)

lemma counts_case_passes:
  assumes "parse_prologue f = Inr body" and "stream_stats stats_zero body =
      \<lparr> st_records = 4, st_events = 2, st_skipped_non_mbo = 1, st_skipped_malformed = 1 \<rparr>"
  shows "on_stream f tmp (case_counts base (dbn_next file_read) dbn_stats) = Some 0"
    and "on_mapping (posix_platform ex_posix) ex_start f tmp
      (\<lambda>mem. case_counts base (mmap_next mem) mmap_stats) = Some 0"
  unfolding accessors using assms
  by (auto intro!: passes [OF assms(1)] fsrc.sr.case_counts_passes mm.case_counts_passes)

lemma version2_refused:
  "stream_refuses code version2_file tmp = Some 0"
  "mapping_refuses code (posix_platform ex_posix) ex_start version2_file tmp = Some 0"
proof -
  show "stream_refuses code version2_file tmp = Some 0"
    using dbn_open_parses [of default_chunk_size "[tmp \<mapsto> version2_file]" tmp] test_prologues(3)
    by (simp add: stream_refuses_def default_chunk_size_def)
  have "version2_file \<noteq> []" by (simp add: version2_file_def)
  with mmap_open_ex [of "[tmp \<mapsto> version2_file]" tmp version2_file] test_prologues(3)
  show "mapping_refuses code (posix_platform ex_posix) ex_start version2_file tmp = Some 0"
    by (auto simp: mapping_refuses_def)
qed

lemma test_dbn_reader_passes: "test_dbn_reader (posix_platform ex_posix) ex_start tmp = Some 0"
proof -
  obtain a b where "stream_events (mixed_body (111, 1000) (999, 9999) (222, 2000)) = [a, b]"
    "\<not> stream_corrupt (mixed_body (111, 1000) (999, 9999) (222, 2000))"
    "ev_order_id a = 111" "ev_price a = 1000" "ev_order_id b = 222"
    using mixed_body_holds [of "(111, 1000)" "(999, 9999)" "(222, 2000)"] by auto
  note mixed = mixed_case_passes [OF test_prologues(1) this]
  obtain c where "stream_events corrupt_body = [c]" "stream_corrupt corrupt_body" "ev_order_id c = 77"
    using corrupt_body_holds by auto
  note corrupt = corrupt_case_passes [OF test_prologues(2) this]
  have "stream_stats stats_zero (mixed_body (1, 10) (2, 20) (3, 30)) =
      \<lparr> st_records = 4, st_events = 2, st_skipped_non_mbo = 1, st_skipped_malformed = 1 \<rparr>"
    using mixed_body_holds [of "(1, 10)" "(2, 20)" "(3, 30)"] by auto
  note counts = counts_case_passes [OF test_prologues(1) this]
  show ?thesis
    by (simp add: test_dbn_reader_def Let_def mixed corrupt counts version2_refused test_framer_passes
        test_assembler_passes test_byte_source_passes test_missing_passes)
qed

end
