(* ===== verification/MappingTests.thy ===== *)
theory MappingTests
  imports UnitTests FileOwnership
begin

text \<open>
  \<open>tests/cpp/test_memory_mapped_file.cpp\<close> on the model, over the example system. The objects of a case
  are numbered; every case starts a world without objects over a file system with the files it writes.
\<close>

definition write_ramp :: "nat \<Rightarrow> bytes" where
  "write_ramp n = map of_nat [0..<n]"

definition fresh_world :: "file_system \<Rightarrow> ex_os world" where
  "fresh_world files = \<lparr> wo_os = ex_start files, wo_objs = Map.empty \<rparr>"

definition test_platform :: "ex_os platform" where
  "test_platform = posix_platform ex_posix"

definition obj_bytes :: "ex_os world \<Rightarrow> nat \<Rightarrow> bytes option" where
  "obj_bytes w i = do { m \<leftarrow> wo_objs w i; mf_bytes (pf_mem test_platform (wo_os w)) m }"

text \<open>A 100-byte file maps to its bytes.\<close>

definition test_mapping_1 :: "path \<Rightarrow> int option" where
  "test_mapping_1 tmp = do {
     let w = wo_construct test_platform 0 tmp (fresh_world [tmp \<mapsto> write_ramp 100]);
     m \<leftarrow> wo_objs w 0;
     b \<leftarrow> obj_bytes w 0;
     b0 \<leftarrow> byte_at b 0;
     b99 \<leftarrow> byte_at b 99;
     b50 \<leftarrow> byte_at b 50;
     w \<leftarrow> wo_destroy test_platform 0 w;
     Some (exit_code [(1, mf_length m \<noteq> 100), (2, length b \<noteq> 100), (3, b0 \<noteq> 0), (4, b99 \<noteq> 99),
       (5, b50 \<noteq> 50)])
   }"

text \<open>Move construction: object 0 is \<open>src\<close>, object 1 is \<open>dst\<close>.\<close>

definition test_mapping_2 :: "path \<Rightarrow> int option" where
  "test_mapping_2 tmp = do {
     let w = wo_construct test_platform 0 tmp (fresh_world [tmp \<mapsto> write_ramp 64]);
     before \<leftarrow> wo_objs w 0;
     w \<leftarrow> wo_move_construct 1 0 w;
     src \<leftarrow> wo_objs w 0;
     dst \<leftarrow> wo_objs w 1;
     b \<leftarrow> obj_bytes w 1;
     b63 \<leftarrow> byte_at b 63;
     w \<leftarrow> wo_destroy test_platform 1 w;
     w \<leftarrow> wo_destroy test_platform 0 w;
     Some (exit_code [(10, mf_length dst \<noteq> 64), (11, mf_data dst \<noteq> mf_data before), (12, b63 \<noteq> 63),
       (13, mf_length src \<noteq> 0), (14, mf_data src \<noteq> None)])
   }"

text \<open>Move assignment from a temporary, object 1.\<close>

definition test_mapping_3 :: "path \<Rightarrow> path \<Rightarrow> int option" where
  "test_mapping_3 a b = do {
     let w = wo_construct test_platform 0 a (fresh_world [a \<mapsto> write_ramp 40, b \<mapsto> write_ramp 80]);
     let w = wo_construct test_platform 1 b w;
     w \<leftarrow> wo_move_assign test_platform 0 1 w;
     w \<leftarrow> wo_destroy test_platform 1 w;
     m \<leftarrow> wo_objs w 0;
     bs \<leftarrow> obj_bytes w 0;
     b79 \<leftarrow> byte_at bs 79;
     w \<leftarrow> wo_destroy test_platform 0 w;
     Some (exit_code [(20, mf_length m \<noteq> 80), (21, b79 \<noteq> 79)])
   }"

definition test_mapping_4 :: "path \<Rightarrow> int option" where
  "test_mapping_4 tmp = do {
     let w = wo_construct test_platform 0 tmp (fresh_world [tmp \<mapsto> write_ramp 0]);
     m \<leftarrow> wo_objs w 0;
     b \<leftarrow> obj_bytes w 0;
     w \<leftarrow> wo_destroy test_platform 0 w;
     Some (exit_code [(30, mf_length m \<noteq> 0), (31, b \<noteq> [])])
   }"

text \<open>A constructor that throws leaves no object.\<close>

definition test_mapping_5 :: "path \<Rightarrow> int option" where
  "test_mapping_5 missing =
     (let w = wo_construct test_platform 0 missing (fresh_world Map.empty)
      in Some (exit_code [(40, wo_objs w 0 \<noteq> None)]))"

definition test_memory_mapped_file :: "path \<Rightarrow> path \<Rightarrow> int option" where
  "test_memory_mapped_file a b = run_cases
     [test_mapping_1 a, test_mapping_2 a, test_mapping_3 a b, test_mapping_4 a, test_mapping_5 a]"

lemmas mapping_eval = fresh_world_def test_platform_def obj_bytes_def wo_construct_def
  wo_move_construct_def wo_move_assign_def wo_destroy_def mf_open_def mf_release_def mf_empty_def
  mf_length_def mf_bytes_def ex_posix_def ex_start_def ex_open_def ex_fstat_def ex_mmap_def span_simps
  byte_at_def write_ramp_def Let_def

lemma test_memory_mapped_file_passes:
  assumes "a \<noteq> b"
  shows "test_memory_mapped_file a b = Some 0"
proof -
  have "test_mapping_1 a = Some 0"
    by (simp add: test_mapping_1_def mapping_eval)
  moreover have "test_mapping_2 a = Some 0"
    by (simp add: test_mapping_2_def mapping_eval)
  moreover have "test_mapping_3 a b = Some 0"
    using assms by (simp add: test_mapping_3_def mapping_eval)
  moreover have "test_mapping_4 a = Some 0"
    by (simp add: test_mapping_4_def mapping_eval)
  moreover have "test_mapping_5 a = Some 0"
    by (simp add: test_mapping_5_def mapping_eval)
  ultimately show ?thesis
    by (simp add: test_memory_mapped_file_def)
qed

end
