(* ===== verification/GrowingFile.thy ===== *)
theory GrowingFile
  imports StreamIngest
begin

text \<open>
  \<open>DbnReader\<close> on a file that another process is still writing. The environment appends to the file
  in front of any read, so also in the middle of a call of \<open>next()\<close>: \<open>live_read\<close> takes the bytes it
  appends from a schedule, one entry per read. Because an \<open>ifstream\<close> that has met the end of the file
  delivers nothing any more, the reader sees the file as it was at one moment: a snapshot.
\<close>

subsection \<open>A file that grows\<close>

definition file_grows :: "bytes \<Rightarrow> file_byte_source \<Rightarrow> file_byte_source" where
  "file_grows g src = src\<lparr>fb_file := (fb_file src)\<lparr>if_content := if_content (fb_file src) @ g\<rparr>\<rparr>"

text \<open>The source, and what will be appended before each of the next reads.\<close>

record live_source =
  lv_source :: file_byte_source
  lv_growth :: "bytes list"

fun live_read :: "live_source \<Rightarrow> bytes \<Rightarrow> nat \<times> bytes \<times> live_source" where
  "live_read s dst =
     (let src = (case lv_growth s of [] \<Rightarrow> lv_source s | g # gs \<Rightarrow> file_grows g (lv_source s));
          (n, dst', src') = file_read src dst
      in (n, dst', \<lparr> lv_source = src', lv_growth = tl (lv_growth s) \<rparr>))"

declare live_read.simps [simp del]

text \<open>No device failure, and no position behind the end.\<close>

definition file_intact :: "file_byte_source \<Rightarrow> bool" where
  "file_intact src \<longleftrightarrow>
     if_limit (fb_file src) = None \<and> if_pos (fb_file src) \<le> length (if_content (fb_file src))"

lemma file_intact_grows [simp]: "file_intact src \<Longrightarrow> file_intact (file_grows g src)"
  by (simp add: file_intact_def file_grows_def)

lemma pending_grows:
  "file_intact src \<Longrightarrow> file_pending (file_grows g src) =
     (if ifstream_good (fb_file src) then file_pending src @ g else [])"
  by (simp add: file_pending_def file_intact_def file_grows_def ifstream_good_def ifstream_delivers_def)

lemma good_grows [simp]: "ifstream_good (fb_file (file_grows g src)) = ifstream_good (fb_file src)"
  by (simp add: file_grows_def ifstream_good_def)

text \<open>A read of \<open>c\<close> bytes: all of them, or all there is, and then the stream is not good any more.\<close>

lemma file_read_full:
  assumes "file_read src dst = (n, dst', src')" and "file_intact src"
  shows "file_intact src'"
    and "take n dst' = take (length dst) (file_pending src)" and "length dst' = length dst"
    and "n = min (length dst) (length (file_pending src))"
    and "ifstream_good (fb_file src') \<longleftrightarrow>
      ifstream_good (fb_file src) \<and> length dst \<le> length (file_pending src)"
  using assms
  by (auto simp: file_read_def istream_read_def file_intact_def file_pending_def ifstream_good_def
      ifstream_delivers_def Let_def min_def split: prod.splits if_splits)


text \<open>What is left in the buffer behind the bytes of a read depends on the buffer alone.\<close>

lemma file_read_eq:
  assumes "file_intact src"
  shows "\<exists>src'. file_read src dst =
      (min (length dst) (length (file_pending src)),
       take (length dst) (file_pending src) @ drop (length (file_pending src)) dst, src') \<and>
    (\<forall>dst2. length dst2 = length dst \<longrightarrow> snd (snd (file_read src dst2)) = src')"
  using assms
  by (auto simp: file_read_def istream_read_def file_intact_def file_pending_def ifstream_good_def
      ifstream_delivers_def Let_def min_def split: prod.splits)

subsection \<open>The growing file as a byte source\<close>

text \<open>
  All reads of \<open>next()\<close> ask for the same number of bytes \<open>c\<close>, the chunk size. With it the bytes that
  the source still delivers are determined.
\<close>

fun live_pending :: "nat \<Rightarrow> file_byte_source \<Rightarrow> bytes list \<Rightarrow> bytes" where
  "live_pending c src [] = file_pending src"
| "live_pending c src (g # gs) =
     (let (n, dst, src') = file_read (file_grows g src) (replicate c 0)
      in take n dst @ live_pending c src' gs)"

lemma live_pending_ended:
  "file_intact src \<Longrightarrow> \<not> ifstream_good (fb_file src) \<Longrightarrow> live_pending c src gs = []"
proof (induction gs arbitrary: src)
  case Nil
  then show ?case by (simp add: file_pending_def)
next
  case (Cons g gs)
  obtain n dst src' where read: "file_read (file_grows g src) (replicate c 0) = (n, dst, src')"
    by (cases "file_read (file_grows g src) (replicate c 0)") auto
  note R = file_read_full [OF read file_intact_grows [OF Cons.prems(1)]]
  from R Cons.prems have "file_intact src'" "\<not> ifstream_good (fb_file src')" "take n dst = []"
    by (simp_all add: pending_grows)
  with Cons.IH read show ?case by simp
qed

text \<open>These bytes are a snapshot: what the file had then, and the first of the appended pieces.\<close>

lemma live_pending_good:
  assumes "file_intact src" and "ifstream_good (fb_file src)"
  shows "\<exists>k. live_pending c src gs = file_pending src @ concat (take k gs)"
  using assms
proof (induction gs arbitrary: src)
  case Nil
  then show ?case by simp
next
  case (Cons g gs)
  obtain n dst src' where read: "file_read (file_grows g src) (replicate c 0) = (n, dst, src')"
    by (cases "file_read (file_grows g src) (replicate c 0)") auto
  note R = file_read_full [OF read file_intact_grows [OF Cons.prems(1)]]
  have pend: "file_pending (file_grows g src) = file_pending src @ g"
    using Cons.prems by (simp add: pending_grows)
  show ?case
  proof (cases "ifstream_good (fb_file src')")
    case False
    with R Cons.prems pend have "take n dst = file_pending src @ g" by auto
    with False read R(1) show ?thesis
      by (intro exI [of _ 1]) (simp add: live_pending_ended)
  next
    case True
    obtain k where k: "live_pending c src' gs = file_pending src' @ concat (take k gs)"
      using Cons.IH [OF R(1) True] by blast
    have "take n dst @ file_pending src' = file_pending src @ g"
      using fsrc.read_data [OF read] pend by simp
    with k read show ?thesis
      by (intro exI [of _ "Suc k"]) (simp flip: append_assoc)
  qed
qed

lemma live_pending_snapshot:
  assumes "file_intact src"
  shows "\<exists>k. live_pending c src gs = file_pending src @ concat (take k gs)"
proof (cases "ifstream_good (fb_file src)")
  case True
  with live_pending_good [OF assms] show ?thesis by blast
next
  case False
  then have "file_pending src = []" by (simp add: file_pending_def)
  with live_pending_ended [OF assms False] show ?thesis
    by (intro exI [of _ 0]) simp
qed

text \<open>Reads of other sizes, which do not occur, are given any lawful meaning.\<close>

definition live_total :: "nat \<Rightarrow> live_source \<Rightarrow> bytes" where
  "live_total c s = (if file_intact (lv_source s) then live_pending c (lv_source s) (lv_growth s) else [])"

definition chunk_read :: "nat \<Rightarrow> live_source \<Rightarrow> bytes \<Rightarrow> nat \<times> bytes \<times> live_source" where
  "chunk_read c s dst =
     (if length dst = c \<and> file_intact (lv_source s) then live_read s dst
      else let p = live_total c s; n = min (length dst) (length p) in
        (n, take n p @ drop n dst,
         \<lparr> lv_source = \<lparr> fb_file = ifstream_fresh (drop n p) \<rparr>, lv_growth = [] \<rparr>))"

lemma file_intact_fresh [simp]: "file_intact \<lparr> fb_file = ifstream_fresh c \<rparr>"
  by (simp add: file_intact_def ifstream_fresh_def)

lemma live_read_step:
  assumes "live_read s dst = (n, dst', s')" and "file_intact (lv_source s)"
  shows "n \<le> length dst" and "length dst' = length dst" and "file_intact (lv_source s')"
    and "take n dst' @ live_total (length dst) s' = live_total (length dst) s"
    and "n = 0 \<Longrightarrow> dst \<noteq> [] \<Longrightarrow> live_total (length dst) s = []"
proof -
  let ?c = "length dst"
  define src where "src = (case lv_growth s of [] \<Rightarrow> lv_source s | g # gs \<Rightarrow> file_grows g (lv_source s))"
  have intact: "file_intact src"
    using assms(2) by (simp add: src_def split: list.split)
  obtain src' where read: "file_read src dst = (n, dst', src')"
    and s': "s' = \<lparr> lv_source = src', lv_growth = tl (lv_growth s) \<rparr>"
    using assms(1) by (auto simp: live_read.simps src_def Let_def split: prod.splits)
  note R = file_read_full [OF read intact]
  show "n \<le> length dst" and "length dst' = length dst" and "file_intact (lv_source s')"
    using R by (simp_all add: s')
  obtain n0 dst0 where read0: "file_read src (replicate ?c 0) = (n0, dst0, src')"
    and same: "take n0 dst0 = take n dst'"
  proof -
    obtain n0 dst0 src0 where r0: "file_read src (replicate ?c 0) = (n0, dst0, src0)"
      by (cases "file_read src (replicate ?c 0)") auto
    have "src0 = src'"
      using file_read_eq [OF intact, of dst] read r0
      by (metis length_replicate snd_conv)
    with r0 file_read_full [OF r0 intact] R that show ?thesis by simp
  qed
  have total: "live_total ?c s = take n dst' @ live_pending ?c src' (tl (lv_growth s))"
  proof (cases "lv_growth s")
    case Nil
    then show ?thesis
      using fsrc.read_data [OF read] assms(2) by (simp add: live_total_def src_def)
  next
    case (Cons g gs)
    then show ?thesis
      using read0 same assms(2) by (simp add: live_total_def src_def)
  qed
  then show "take n dst' @ live_total ?c s' = live_total ?c s"
    using R(1) by (simp add: live_total_def s')
  assume "n = 0" and "dst \<noteq> []"
  then have "file_pending src = []" and "\<not> ifstream_good (fb_file src')"
    using R(4,5) by (auto simp: min_def split: if_splits)
  with total live_pending_ended [OF R(1)] \<open>n = 0\<close> show "live_total ?c s = []" by simp
qed

text \<open>So the reads of one size are those of a byte source that delivers a snapshot.\<close>

lemma chunk_read_source: "byte_source (chunk_read c) (live_total c)"
proof
  show "n \<le> length dst \<and> length dst' = length dst" if "chunk_read c s dst = (n, dst', s')" for s dst n dst' s'
    using that live_read_step(1,2) [of s dst n dst' s']
    by (auto simp: chunk_read_def Let_def split: if_splits)
  show "take n dst' @ live_total c s' = live_total c s" if "chunk_read c s dst = (n, dst', s')"
    for s dst n dst' s'
    using that live_read_step(4) [of s dst n dst' s']
    by (auto simp: chunk_read_def live_total_def Let_def min_def split: if_splits)
  show "live_total c s = []" if "chunk_read c s dst = (0, dst', s')" "dst \<noteq> []" for s dst dst' s'
    using that live_read_step(5) [of s dst 0 dst' s']
    by (auto simp: chunk_read_def Let_def min_def split: if_splits)
qed

interpretation live: byte_source "chunk_read c" "live_total c" for c
  by (rule chunk_read_source)

subsection \<open>The reader over a growing file\<close>

definition live_inv :: "nat \<Rightarrow> live_source dbn_reader \<Rightarrow> bool" where
  "live_inv c r \<longleftrightarrow> stream_inv r \<and> length (rd_scratch r) = c \<and> file_intact (lv_source (rd_source r))"

text \<open>The reads of \<open>next()\<close> have the size of the scratch buffer, so they are reads of that byte source.\<close>

lemma next_live_chunk:
  assumes "dbn_next (chunk_read c) r = Some y" and "length (rd_scratch r) = c"
    and "file_intact (lv_source (rd_source r))"
  shows "dbn_next live_read r = Some y \<and> file_intact (lv_source (rd_source (snd y)))"
proof -
  have "rd = chunk_read c \<longrightarrow> length (rd_scratch r) = c \<longrightarrow> file_intact (lv_source (rd_source r)) \<longrightarrow>
      dbn_next live_read r = Some y \<and> file_intact (lv_source (rd_source (snd y)))"
    if run: "dbn_next rd r = Some y" for rd r y
  proof (rule dbn_next.raw_induct [where P = "\<lambda>rd r y. rd = chunk_read c \<longrightarrow> length (rd_scratch r) = c \<longrightarrow>
      file_intact (lv_source (rd_source r)) \<longrightarrow>
      dbn_next live_read r = Some y \<and> file_intact (lv_source (rd_source (snd y)))", OF _ run], goal_cases)
    case (1 nxt rd r y)
    show ?case
    proof (intro impI)
      assume rd: "rd = chunk_read c" and len: "length (rd_scratch r) = c"
        and intact: "file_intact (lv_source (rd_source r))"
      from 1(2) obtain p a where asm: "asm_next (rd_assembler r) = Some (p, a)"
        by (auto simp: bind_eq_Some_conv)
      have read: "chunk_read c (rd_source r) (rd_scratch r) = live_read (rd_source r) (rd_scratch r)"
        using len intact by (simp add: chunk_read_def)
      obtain n scratch s where lr: "live_read (rd_source r) (rd_scratch r) = (n, scratch, s)"
        by (cases "live_read (rd_source r) (rd_scratch r)") auto
      note L = live_read_step(2,3) [OF lr intact]
      show "dbn_next live_read r = Some y \<and> file_intact (lv_source (rd_source (snd y)))"
      proof (cases "pl_status p")
        case PullRecord
        with 1(2) asm obtain rcd routed where "view_bytes a (pl_record p) = Some rcd"
          and "route_record rcd = Some routed"
          by (auto simp: bind_eq_Some_conv)
        moreover obtain e st where "tally (rd_stats r) routed = (e, st)"
          by (cases "tally (rd_stats r) routed") auto
        ultimately show ?thesis
          using PullRecord 1 asm rd len intact
          by (subst dbn_next.simps) (auto simp: Let_def split: if_splits)
      next
        case PullNeedMore
        obtain e r1 where "y = (e, r1)" by (cases y)
        with PullNeedMore 1 asm rd len read lr L show ?thesis
          by (subst dbn_next.simps) (auto simp: bind_eq_Some_conv Let_def split: if_splits)
      next
        case PullCorrupt
        with 1(2) asm intact show ?thesis
          by (subst dbn_next.simps) auto
      qed
    qed
  qed
  with assms show ?thesis by blast
qed

text \<open>Hence the reader is a \<open>pull_reader\<close>, over the snapshot.\<close>

lemma live_reader:
  "pull_reader (dbn_next live_read) (stream_rest (live_total c)) rd_stats rd_failed rd_version (live_inv c)"
proof
  fix r e bs st failed
  assume inv: "live_inv c r" and pull: "pull (stream_rest (live_total c) r) (rd_stats r) = (e, bs, st, failed)"
  then obtain r' where r': "dbn_next (chunk_read c) r = Some (e, r')" "stream_inv r'"
    "stream_rest (live_total c) r' = bs" "rd_stats r' = st" "rd_failed r' = (rd_failed r \<or> failed)"
    "rd_version r' = rd_version r" "length (rd_scratch r') = length (rd_scratch r)"
    using live.dbn_next_pull [of r c e bs st failed] by (auto simp: live_inv_def)
  with next_live_chunk [OF r'(1)] inv
  show "\<exists>r'. dbn_next live_read r = Some (e, r') \<and> live_inv c r' \<and> stream_rest (live_total c) r' = bs \<and>
      rd_stats r' = st \<and> rd_failed r' = (rd_failed r \<or> failed) \<and> rd_version r' = rd_version r"
    by (auto simp: live_inv_def)
qed

interpretation lr: pull_reader "dbn_next live_read" "stream_rest (live_total c)" rd_stats rd_failed
    rd_version "live_inv c" for c
  by (rule live_reader)

text \<open>A reader that was opened when the file held \<open>f\<close>, from where the file grows.\<close>

definition live_from :: "bytes list \<Rightarrow> file_byte_source dbn_reader \<Rightarrow> live_source dbn_reader" where
  "live_from gs r =
     \<lparr> rd_source = \<lparr> lv_source = rd_source r, lv_growth = gs \<rparr>, rd_assembler = rd_assembler r,
       rd_scratch = rd_scratch r, rd_version = rd_version r, rd_failed = rd_failed r, rd_stats = rd_stats r \<rparr>"

text \<open>What every read keeps of a source, the constructor keeps.\<close>

lemma read_fully_keeps:
  assumes keeps: "\<And>s dst n dst' s'. rd s dst = (n, dst', s') \<Longrightarrow> P s \<Longrightarrow> P s'"
    and run: "read_fully rd s dst tot = Some y" and "P s"
  shows "P (snd (snd y))"
proof -
  have "(\<forall>s dst n dst' s'. rd s dst = (n, dst', s') \<longrightarrow> P s \<longrightarrow> P s') \<longrightarrow> P s \<longrightarrow> P (snd (snd y))"
  proof (rule read_fully.raw_induct [where P = "\<lambda>rd s dst tot y.
      (\<forall>s dst n dst' s'. rd s dst = (n, dst', s') \<longrightarrow> P s \<longrightarrow> P s') \<longrightarrow> P s \<longrightarrow> P (snd (snd y))", OF _ run],
      goal_cases)
    case (1 rf rd s dst tot y)
    obtain n sub s' where "rd s (drop tot dst) = (n, sub, s')"
      by (cases "rd s (drop tot dst)") auto
    moreover obtain m dst1 s1 where "y = (m, dst1, s1)" by (cases y)
    ultimately show ?case
      using 1 by (auto simp: span_subspan_def Let_def split: if_splits)
  qed
  with keeps \<open>P s\<close> show ?thesis by blast
qed

lemma skip_metadata_keeps:
  assumes keeps: "\<And>s dst n dst' s'. rd s dst = (n, dst', s') \<Longrightarrow> P s \<Longrightarrow> P s'"
    and run: "skip_metadata rd s scratch remaining = Some y" and "P s"
  shows "case y of Inl err \<Rightarrow> True | Inr (scratch', s') \<Rightarrow> P s'"
proof -
  let ?K = "\<lambda>rd. \<forall>s dst n dst' s'. rd s dst = (n, dst', s') \<longrightarrow> P s \<longrightarrow> P s'"
  have "?K rd \<longrightarrow> P s \<longrightarrow> (case y of Inl err \<Rightarrow> True | Inr (scratch', s') \<Rightarrow> P s')"
  proof (rule skip_metadata.raw_induct [where P = "\<lambda>rd s scratch remaining y.
      ?K rd \<longrightarrow> P s \<longrightarrow> (case y of Inl err \<Rightarrow> True | Inr (scratch', s') \<Rightarrow> P s')", OF _ run], goal_cases)
    case (1 sm rd s scratch remaining y)
    show ?case
    proof (intro impI)
      assume K: "?K rd" and "P s"
      show "case y of Inl err \<Rightarrow> True | Inr (scratch', s') \<Rightarrow> P s'"
      proof (cases "remaining > 0")
        case False
        with 1(2) \<open>P s\<close> show ?thesis by auto
      next
        case True
        let ?want = "min remaining (length scratch)"
        from 1(2) True obtain dst got dst' s' where
          read: "read_fully rd s dst 0 = Some (got, dst', s')"
          and y: "(if got \<noteq> ?want then Some (Inl TruncatedMetadata)
            else sm rd s' (dst' @ drop ?want scratch) (remaining - got)) = Some y"
          by (auto simp: Let_def bind_eq_Some_conv)
        have "P s'"
          using read_fully_keeps [of rd P, OF _ read \<open>P s\<close>] K by fastforce
        with 1(1) y K show ?thesis by (auto split: if_splits)
      qed
    qed
  qed
  with keeps \<open>P s\<close> show ?thesis by blast
qed

lemma dbn_open_intact:
  assumes "dbn_open fs p chunk_size = Some (Inr r)"
  shows "file_intact (rd_source r)"
proof -
  have keeps: "file_intact s'" if "file_read s dst = (n, dst', s')" "file_intact s" for s dst n dst' s'
    using file_read_full(1) [OF that] .
  obtain f where f: "fs p = Some f"
    and skip: "skip_prologue file_read (dbn_init \<lparr> fb_file = ifstream_fresh f \<rparr> chunk_size) = Some (Inr r)"
    using assms by (auto simp: dbn_open_def file_source_open_eq split: option.splits if_splits)
  from skip obtain got header s res where
    read: "read_fully file_read \<lparr> fb_file = ifstream_fresh f \<rparr> (replicate 8 0) 0 = Some (got, header, s)"
    and meta: "skip_metadata file_read s (replicate chunk_size 0)
      (unat (load_field 4 4 header :: u32)) = Some res"
    and res: "case res of Inl err \<Rightarrow> False | Inr (scratch, s') \<Rightarrow> rd_source r = s'"
    by (fastforce simp: skip_prologue_def dbn_init_def Let_def bind_eq_Some_conv split: if_splits sum.splits)
  have "file_intact s"
    using read_fully_keeps [of file_read file_intact, OF keeps read] by simp
  from skip_metadata_keeps [of file_read file_intact, OF keeps meta this] res show ?thesis
    by (auto split: sum.splits)
qed

subsection \<open>Properties\<close>

text \<open>(C25) Reading a file while another process appends to it is reading a snapshot. Whatever is
  appended before each read, in the middle of a call of \<open>next()\<close> or between two, the consumer's loop
  ends without undefined behaviour, and all it sees is \<open>ingest\<close> of what the file held at some moment:
  its contents when the reader was opened and the first of the pieces appended since. Once the end is
  reported nothing more is read, however the file goes on.\<close>

theorem growing_file_snapshot:
  assumes "0 < chunk_size" and "dbn_open fs p chunk_size = Some (Inr r0)"
  shows "\<exists>f k es r r'. fs p = Some f \<and>
    drain (dbn_next live_read) (live_from gs r0) = Some (es, r) \<and>
    ingest (f @ concat (take k gs)) = Inr \<lparr> ig_events = es, ig_stats = dbn_stats r,
      ig_failed = dbn_failed r, ig_version = dbn_version r \<rparr> \<and>
    dbn_next live_read r = Some (None, r') \<and> dbn_stats r' = dbn_stats r \<and> dbn_failed r' = dbn_failed r"
proof -
  obtain f body where f: "fs p = Some f" "parse_prologue f = Inr body" "stream_inv r0"
    "stream_rest file_pending r0 = body" "rd_stats r0 = stats_zero" "\<not> rd_failed r0"
    "rd_version r0 = kSupportedDbnVersion"
    using dbn_open_valid [OF assms] by metis
  note intact = dbn_open_intact [OF assms(2)]
  let ?c = "length (rd_scratch r0)" and ?r = "live_from gs r0"
  have inv: "live_inv ?c ?r"
    using f(3) intact by (simp add: live_inv_def live_from_def stream_inv_def)
  obtain k where "live_pending ?c (rd_source r0) gs = file_pending (rd_source r0) @ concat (take k gs)"
    using live_pending_snapshot [OF intact] by blast
  then have rest: "stream_rest (live_total ?c) ?r = body @ concat (take k gs)"
    using f(4) intact by (simp add: stream_rest_def live_total_def live_from_def)
  have ig: "ingest (f @ concat (take k gs)) = Inr \<lparr> ig_events = stream_events (body @ concat (take k gs)),
      ig_stats = stream_stats stats_zero (body @ concat (take k gs)),
      ig_failed = stream_corrupt (body @ concat (take k gs)), ig_version = kSupportedDbnVersion \<rparr>"
    by (simp add: ingest_def parse_prologue_append [OF f(2)])
  have start: "rd_stats ?r = stats_zero" "\<not> rd_failed ?r" "rd_version ?r = kSupportedDbnVersion"
    using f(5-7) by (simp_all add: live_from_def)
  obtain r where r: "drain (dbn_next live_read) ?r = Some (stream_events (body @ concat (take k gs)), r)"
    "live_inv ?c r" "stream_rest (live_total ?c) r = snd (split_records (body @ concat (take k gs)))"
    "rd_stats r = stream_stats stats_zero (body @ concat (take k gs))"
    "rd_failed r = stream_corrupt (body @ concat (take k gs))" "rd_version r = kSupportedDbnVersion"
    using lr.drain_ingest [OF inv] start unfolding rest by auto
  obtain e r' where nxt: "dbn_next live_read r = Some (e, r')"
    using lr.next_returns [OF r(2)] by blast
  have "e = None"
    using lr.next_SomeD [OF r(2)] nxt r(3) by (cases e) auto
  with lr.next_NoneD [OF r(2)] nxt r(3-5) have "dbn_next live_read r = Some (None, r')"
    "rd_stats r' = rd_stats r" "rd_failed r' = rd_failed r" by auto
  with f(1) r ig show ?thesis by auto
qed

theorem growing_file_snapshot_witness:
  "\<exists>r k es r'. dbn_open (\<lambda>_. Some sample_file) ''f'' 5 = Some (Inr r) \<and>
    drain (dbn_next live_read) (live_from [[14, 160], [0, 0]] r) = Some (es, r') \<and>
    (\<exists>res. ingest (sample_file @ concat (take k [[14, 160], [0, 0]])) = Inr res \<and> ig_events res = es)"
proof -
  obtain r where r: "dbn_open (\<lambda>_. Some sample_file) ''f'' 5 = Some (Inr r)"
    by (rule open_sample)
  with growing_file_snapshot [OF _ r, of "[[14, 160], [0, 0]]"] show ?thesis by fastforce
qed

end
