(* ===== verification/Allocation.thy ===== *)
theory Allocation
  imports GrowingFile
begin

text \<open>
  \<open>DbnReader::next()\<close> when memory runs out. The one allocation it makes is that of the \<open>insert\<close> in
  \<open>RecordAssembler::append\<close>; it fails by throwing \<open>std::bad_alloc\<close>, which no code below the consumer
  catches. \<open>next_alloc\<close> is \<open>next()\<close> with the outcome of each \<open>insert\<close> given by a schedule (behind its end
  they succeed), and the state the exception leaves is part of the result.
\<close>

subsection \<open>The code\<close>

datatype bad_alloc = BadAlloc

text \<open>\<open>vector::insert\<close> at the end, of bytes, changes nothing when it throws. The \<open>erase\<close> in front of it
  cannot throw and is not undone.\<close>

definition append_alloc :: "bool \<Rightarrow> assembler \<Rightarrow> bytes \<Rightarrow> ((bad_alloc + unit) \<times> assembler) option" where
  "append_alloc ok a chunk = do {
     a \<leftarrow> (if as_read_pos a \<noteq> 0 then do {
             kept \<leftarrow> span_subspan (as_read_pos a) (as_buf a);
             Some (a\<lparr>as_buf := kept, as_read_pos := 0\<rparr>)
           } else Some a);
     Some (if ok then (Inr (), a\<lparr>as_buf := as_buf a @ chunk\<rparr>) else (Inl BadAlloc, a))
   }"

partial_function (option) next_alloc ::
    "('s \<Rightarrow> bytes \<Rightarrow> nat \<times> bytes \<times> 's) \<Rightarrow> bool list \<Rightarrow> 's dbn_reader \<Rightarrow>
      ((bad_alloc + event option) \<times> bool list \<times> 's dbn_reader) option"
  where
  "next_alloc rd oks r = do {
     (p, a) \<leftarrow> asm_next (rd_assembler r);
     let r = r\<lparr>rd_assembler := a\<rparr>;
     case pl_status p of
       PullRecord \<Rightarrow> do {
         rcd \<leftarrow> view_bytes (rd_assembler r) (pl_record p);
         routed \<leftarrow> route_record rcd;
         let (e, st) = tally (rd_stats r) routed;
         let r = r\<lparr>rd_stats := st\<rparr>;
         if e \<noteq> None then Some (Inr e, oks, r) else next_alloc rd oks r
       }
     | PullNeedMore \<Rightarrow> do {
         let (n, scratch, s) = rd (rd_source r) (rd_scratch r);
         let r = r\<lparr>rd_source := s, rd_scratch := scratch\<rparr>;
         if n = 0 then Some (Inr None, oks, r)
         else do {
           chunk \<leftarrow> span_first n (rd_scratch r);
           (res, a) \<leftarrow> append_alloc (oks = [] \<or> hd oks) (rd_assembler r) chunk;
           let r = r\<lparr>rd_assembler := a\<rparr>;
           case res of
             Inl err \<Rightarrow> Some (Inl err, tl oks, r)
           | Inr _ \<Rightarrow> next_alloc rd (tl oks) r
         }
       }
     | PullCorrupt \<Rightarrow> Some (Inr None, oks, r\<lparr>rd_failed := True\<rparr>)
   }"

declare next_alloc.simps [code]

subsection \<open>The state after the exception\<close>

lemma append_alloc_eq:
  "asm_wf a \<Longrightarrow> append_alloc ok a chunk = Some
     (if ok then (Inr (), \<lparr> as_buf = unread a @ chunk, as_read_pos = 0 \<rparr>)
      else (Inl BadAlloc, \<lparr> as_buf = unread a, as_read_pos = 0 \<rparr>))"
  by (cases a) (simp add: append_alloc_def asm_wf_def unread_def span_simps)

text \<open>
  \<open>lost_chunk pending r r'\<close>: between \<open>r\<close> and \<open>r'\<close> records without an event were framed and counted, and
  one chunk was taken from the source that is in neither the assembler nor the source any more.
\<close>

definition skips :: "ingest_stats \<Rightarrow> bytes \<Rightarrow> ingest_stats \<Rightarrow> bool" where
  "skips st framed st' \<longleftrightarrow> (\<forall>x. stream_events (framed @ x) = stream_events x \<and>
     stream_stats st (framed @ x) = stream_stats st' x \<and> stream_corrupt (framed @ x) = stream_corrupt x)"

lemma skips_none [simp]: "skips st [] st"
  by (simp add: skips_def)

lemma skips_record:
  "whole_record rcd \<Longrightarrow> event_of (routing rcd) = None \<Longrightarrow>
    skips (snd (tally st (routing rcd))) framed st' \<Longrightarrow> skips st (rcd @ framed) st'"
  by (simp add: skips_def stream_whole)

definition lost_chunk :: "('s \<Rightarrow> bytes) \<Rightarrow> 's dbn_reader \<Rightarrow> 's dbn_reader \<Rightarrow> bool" where
  "lost_chunk pending r r' \<longleftrightarrow>
     (\<exists>framed chunk.
        stream_rest pending r = framed @ unread (rd_assembler r') @ chunk @ pending (rd_source r') \<and>
        chunk \<noteq> [] \<and> length chunk \<le> length (rd_scratch r) \<and> skips (rd_stats r) framed (rd_stats r')) \<and>
     stream_inv r' \<and> rd_failed r' = rd_failed r \<and> rd_version r' = rd_version r"

text \<open>A record without an event in front of the loss, and an earlier refill, do not matter.\<close>

lemma lost_chunk_past_record:
  assumes "lost_chunk pending (past_record rcd r) r'" and "stream_inv r"
    and "unread (rd_assembler r) = rcd @ rest" and "whole_record rcd" and "event_of (routing rcd) = None"
  shows "lost_chunk pending r r'"
proof -
  obtain framed chunk where lost: "stream_rest pending (past_record rcd r) =
        framed @ unread (rd_assembler r') @ chunk @ pending (rd_source r')"
      "chunk \<noteq> []" "length chunk \<le> length (rd_scratch r)"
      "skips (snd (tally (rd_stats r) (routing rcd))) framed (rd_stats r')"
    and same: "stream_inv r'" "rd_failed r' = rd_failed r" "rd_version r' = rd_version r"
    using assms(1) unfolding lost_chunk_def past_record_sel by blast
  have "stream_rest pending r = (rcd @ framed) @ unread (rd_assembler r') @ chunk @ pending (rd_source r')"
    using past_record_step(2) [OF assms(2-4), of pending] lost(1) by simp
  with skips_record [OF assms(4,5) lost(4)] lost(2,3) same show ?thesis
    unfolding lost_chunk_def by metis
qed

lemma lost_chunk_refilled:
  "lost_chunk pending (refilled n scratch s r) r' \<Longrightarrow> length scratch = length (rd_scratch r) \<Longrightarrow>
    stream_rest pending (refilled n scratch s r) = stream_rest pending r \<Longrightarrow> lost_chunk pending r r'"
  by (simp add: lost_chunk_def)

text \<open>One turn of the loop.\<close>

lemma next_alloc_corrupt:
  "stream_inv r \<Longrightarrow> corrupt_tail (unread (rd_assembler r)) \<Longrightarrow>
    next_alloc rd oks r = Some (Inr None, oks, r\<lparr>rd_failed := True\<rparr>)"
  by (simp add: next_alloc.simps [of rd oks r] asm_next_corrupt stream_inv_def)

lemma next_alloc_whole:
  assumes "stream_inv r" and "unread (rd_assembler r) = rcd @ rest" and "whole_record rcd"
  shows "next_alloc rd oks r = (case event_of (routing rcd) of
      Some ev \<Rightarrow> Some (Inr (Some ev), oks, past_record rcd r)
    | None \<Rightarrow> next_alloc rd oks (past_record rcd r))"
proof -
  have wf: "asm_wf (rd_assembler r)"
    using assms(1) by (simp add: stream_inv_def)
  show ?thesis
    using advance_whole [OF wf assms(2)] assms(3)
    by (simp add: next_alloc.simps [of rd oks r] asm_next_whole [OF wf assms(2,3)] route_whole_record
        past_record_def Let_def case_prod_beta split: option.splits)
qed

text \<open>When the \<open>insert\<close> fails the reader has what a refill of no bytes would have left.\<close>

lemma next_alloc_short:
  assumes "stream_inv r" and "short_tail (unread (rd_assembler r))"
    and "rd (rd_source r) (rd_scratch r) = (n, scratch, s)" and "n \<le> length scratch"
  shows "next_alloc rd oks r =
    (if n = 0 then Some (Inr None, oks, r\<lparr>rd_source := s, rd_scratch := scratch\<rparr>)
     else if oks = [] \<or> hd oks then next_alloc rd (tl oks) (refilled n scratch s r)
     else Some (Inl BadAlloc, tl oks, refilled 0 scratch s r))"
proof -
  have wf: "asm_wf (rd_assembler r)"
    using assms(1) by (simp add: stream_inv_def)
  then show ?thesis
    using assms(3,4) by (simp add: next_alloc.simps [of rd oks r] asm_next_short [OF wf assms(2)]
        refilled_def span_simps append_alloc_eq)
qed

context byte_source begin

lemma refill_loses_chunk:
  assumes "stream_inv r" and "short_tail (unread (rd_assembler r))"
    and "rd (rd_source r) (rd_scratch r) = (n, scratch, s)" and "n \<noteq> 0"
  shows "lost_chunk pending r (refilled 0 scratch s r)"
proof -
  note R = refilled_step [OF assms(1-3)]
  have "stream_rest pending r = [] @ unread (rd_assembler r) @ take n scratch @ pending s"
    using R(4) by (simp add: stream_rest_def)
  moreover have "take n scratch \<noteq> []" "length (take n scratch) \<le> length (rd_scratch r)"
    using R(1,2) assms(4) by auto
  moreover have "stream_inv (refilled 0 scratch s r)"
    using R(3) by (simp add: stream_inv_def refilled_def)
  moreover have "skips (rd_stats r) [] (rd_stats (refilled 0 scratch s r))"
    "rd_assembler (refilled 0 scratch s r) = \<lparr> as_buf = unread (rd_assembler r), as_read_pos = 0 \<rparr>"
    by (simp_all add: refilled_def)
  ultimately show ?thesis
    unfolding lost_chunk_def by (metis refilled_sel(1,3,4) append_fresh(2))
qed

text \<open>Every call returns what \<open>next()\<close> returns with all the memory it wants, or throws, when an
  allocation has failed, and has lost a chunk.\<close>

lemma next_alloc_cases:
  assumes "stream_inv r"
  shows "\<exists>res oks' r'. next_alloc rd oks r = Some (res, oks', r') \<and>
    (case res of
       Inr e \<Rightarrow> dbn_next rd r = Some (e, r')
     | Inl err \<Rightarrow> False \<in> set oks \<and> lost_chunk pending r r')"
  using assms
proof (induction "ahead r" arbitrary: r oks rule: less_induct)
  case less
  note inv = less.prems
  show ?case
  proof (cases "unread (rd_assembler r)" rule: front_cases)
    case corrupt
    with dbn_next_corrupt [OF inv] next_alloc_corrupt [OF inv] show ?thesis by simp
  next
    case (whole rcd rest)
    note step = dbn_next_whole [OF inv whole, of rd] next_alloc_whole [OF inv whole, of rd oks]
    show ?thesis
    proof (cases "event_of (routing rcd)")
      case (Some ev)
      with step show ?thesis by simp
    next
      case None
      note lost = lost_chunk_past_record [of pending rcd r, OF _ inv whole None]
      from less.hyps [OF ahead_past_record [OF inv whole] past_record_step(1) [OF inv whole], of oks]
      show ?thesis
        using None step lost by (fastforce split: sum.splits)
    qed
  next
    case short
    obtain n scratch s where rd: "rd (rd_source r) (rd_scratch r) = (n, scratch, s)"
      by (cases "rd (rd_source r) (rd_scratch r)") auto
    note R = refilled_step [OF inv short rd]
    note step = dbn_next_short [where rd = rd, OF inv short rd R(1)]
      next_alloc_short [where rd = rd and oks = oks, OF inv short rd R(1)]
    have tl: "False \<in> set (tl oks) \<Longrightarrow> False \<in> set oks"
      by (cases oks) auto
    consider (ended) "n = 0" | (throws) "n \<noteq> 0" "oks \<noteq> []" "\<not> hd oks" | (fed) "n \<noteq> 0" "oks = [] \<or> hd oks"
      by blast
    then show ?thesis
    proof cases
      case ended
      with step show ?thesis by simp
    next
      case throws
      then have "False \<in> set oks" by (cases oks) auto
      with throws step refill_loses_chunk [OF inv short rd] show ?thesis by auto
    next
      case fed
      note lost = lost_chunk_refilled [of pending n scratch s r, OF _ R(2,4)]
      from less.hyps [OF ahead_refilled [OF inv short rd fed(1)] R(3), of "tl oks"] show ?thesis
        using fed step lost tl by (fastforce split: sum.splits)
    qed
  qed
qed

text \<open>What a consumer gets that goes on after the exception.\<close>

lemma lost_chunk_seen:
  assumes "lost_chunk pending r r'" and "\<not> rd_failed r"
  shows "\<exists>front chunk behind r''. stream_rest pending r = front @ chunk @ behind \<and> chunk \<noteq> [] \<and>
    length chunk \<le> length (rd_scratch r) \<and>
    drain (dbn_next rd) r' = Some (stream_events (front @ behind), r'') \<and>
    rd_stats r'' = stream_stats (rd_stats r) (front @ behind) \<and>
    rd_failed r'' = stream_corrupt (front @ behind)"
proof -
  obtain framed chunk where
    lost: "stream_rest pending r = framed @ unread (rd_assembler r') @ chunk @ pending (rd_source r')"
      "chunk \<noteq> []" "length chunk \<le> length (rd_scratch r)"
    and framed: "skips (rd_stats r) framed (rd_stats r')"
    and r': "stream_inv r'" "rd_failed r' = rd_failed r"
    using assms(1) unfolding lost_chunk_def by blast
  let ?front = "framed @ unread (rd_assembler r')" and ?behind = "pending (rd_source r')"
  obtain r'' where "drain (dbn_next rd) r' = Some (stream_events (stream_rest pending r'), r'')"
    "rd_stats r'' = stream_stats (rd_stats r') (stream_rest pending r')"
    "rd_failed r'' = (rd_failed r' \<or> stream_corrupt (stream_rest pending r'))"
    using sr.drain_ingest [OF r'(1)] by blast
  moreover have "?front @ ?behind = framed @ stream_rest pending r'"
    by (simp add: stream_rest_def)
  ultimately have "drain (dbn_next rd) r' = Some (stream_events (?front @ ?behind), r'')"
    "rd_stats r'' = stream_stats (rd_stats r) (?front @ ?behind)"
    "rd_failed r'' = stream_corrupt (?front @ ?behind)"
    using framed r'(2) assms(2) by (simp_all add: skips_def)
  with lost show ?thesis by (metis append_assoc)
qed

end

subsection \<open>A chunk whose loss invents an event\<close>

text \<open>One record of another type, 60 bytes, that quotes an MBO record behind its first four bytes.\<close>

definition quoting_record :: bytes where
  "quoting_record = [15, 23, 0, 0] @ item_bytes (Quote 2 7 1 50 sample_event)"

definition quoting_file :: bytes where
  "quoting_file = prologue_bytes [] @ quoting_record"

lemma quote_ok: "list_all item_ok [Quote 2 7 1 50 sample_event]"
  using sample_items_ok by (simp add: sample_items_def)

lemma quoting_whole: "whole_record quoting_record"
  using whole_item [of "Quote 2 7 1 50 sample_event"] quote_ok
  by (simp add: whole_record_def quoting_record_def)

lemma quoting_events: "stream_events quoting_record = []"
  using stream_whole(1) [OF quoting_whole, where rest = "[]"] routing_other [OF quoting_whole]
  by (simp add: quoting_record_def kMboRtype_def event_of_def short_tail_def)

lemma quoted_events: "stream_events (item_bytes (Quote 2 7 1 50 sample_event)) = [sample_event]"
  using stream_events_feed [OF quote_ok, of "[]"] by (simp add: feed_bytes_def short_tail_def)

text \<open>The reader as its constructor leaves it has an empty assembler.\<close>

lemma dbn_open_fresh:
  assumes "0 < chunk_size" and "dbn_open fs p chunk_size = Some (Inr r)"
  shows "rd_assembler r = asm_empty"
proof -
  obtain f where "skip_prologue file_read (dbn_init \<lparr> fb_file = ifstream_fresh f \<rparr> chunk_size) = Some (Inr r)"
    using assms(2) by (auto simp: dbn_open_def file_source_open_eq split: option.splits if_splits)
  moreover have "rd_scratch (dbn_init \<lparr> fb_file = ifstream_fresh f \<rparr> chunk_size) \<noteq> []"
    using assms(1) by (simp add: dbn_init_def)
  ultimately show ?thesis
    using fsrc.skip_prologue_parses by (fastforce simp: dbn_init_def split: sum.splits)
qed

text \<open>A failure at the first refill: that chunk is gone, and the next one is taken for a record.\<close>

lemma first_refill_fails:
  assumes "dbn_open fs p chunk_size = Some (Inr r)" and "0 < chunk_size"
    and "file_pending (rd_source r) \<noteq> []"
  shows "\<exists>r'. next_alloc file_read [False] r = Some (Inl BadAlloc, [], r') \<and> stream_inv r' \<and>
    stream_rest file_pending r' = drop chunk_size (file_pending (rd_source r))"
proof -
  obtain n sc s where rd: "file_read (rd_source r) (rd_scratch r) = (n, sc, s)"
    by (cases "file_read (rd_source r) (rd_scratch r)") auto
  have inv: "stream_inv r" and len: "length (rd_scratch r) = chunk_size"
    using dbn_open_valid [OF assms(2,1)] by metis+
  note asm = dbn_open_fresh [OF assms(2,1)]
  note R = file_read_full [OF rd dbn_open_intact [OF assms(1)]]
  have n: "n \<noteq> 0" "n \<le> length sc"
    using R assms(2,3) len by auto
  have "asm_next asm_empty = Some (\<lparr> pl_status = PullNeedMore, pl_record = \<lparr> vw_off = 0, vw_len = 0 \<rparr> \<rparr>, asm_empty)"
    by (rule asm_next_short) (simp_all add: short_tail_def)
  moreover have "append_alloc False asm_empty c = Some (Inl BadAlloc, asm_empty)" for c
    by (simp add: append_alloc_eq) (simp add: asm_empty_def)
  ultimately have "next_alloc file_read [False] r =
      Some (Inl BadAlloc, [], r\<lparr>rd_source := s, rd_scratch := sc, rd_assembler := asm_empty\<rparr>)"
    using rd n asm by (simp add: next_alloc.simps [of file_read "[False]" r] span_simps)
  moreover have "file_pending s = drop chunk_size (file_pending (rd_source r))"
    using fsrc.read_data [OF rd] R(2,4) len
    by (metis append_take_drop_id same_append_eq)
  ultimately show ?thesis
    using inv R(3) by (auto simp: stream_inv_def stream_rest_def asm_empty_def)
qed

lemma quoting_file_open:
  obtains r where "dbn_open (\<lambda>_. Some quoting_file) p 4 = Some (Inr r)" "\<not> dbn_failed r"
    "stream_inv r" "file_pending (rd_source r) = quoting_record"
proof -
  have "parse_prologue quoting_file = Inr quoting_record"
    unfolding quoting_file_def by (rule parse_prologue_bytes) simp
  then obtain r where r: "dbn_open (\<lambda>_. Some quoting_file) p 4 = Some (Inr r)" "\<not> rd_failed r"
    "stream_inv r" "stream_rest file_pending r = quoting_record"
    using dbn_open_parses [of 4 "\<lambda>_. Some quoting_file" p] by auto
  moreover have "rd_assembler r = asm_empty"
    using dbn_open_fresh [OF _ r(1)] by simp
  ultimately show ?thesis
    using that by (simp add: stream_rest_def)
qed

subsection \<open>Properties\<close>

text \<open>(C32) When memory runs out during \<open>next()\<close>. Whichever allocations fail, each call of \<open>next()\<close> either
  returns exactly what it returns with all the memory it wants, or throws after one of its allocations
  has failed. In the second case the reader can still be used, but the chunk that was to be appended is
  gone: a consumer that catches the exception and goes on sees the file with up to \<open>chunk_size\<close> bytes
  cut out of its middle, and \<open>failed()\<close> and the counters are those of that other file. The witness is a
  file without an event of which such a consumer gets one.\<close>

theorem bad_alloc_loses_chunk:
  assumes "0 < chunk_size" and "dbn_open fs p chunk_size = Some (Inr r0)"
    and "pulls (dbn_next file_read) r0 es r" and "\<not> dbn_failed r"
  shows "\<exists>f body res oks' r'. fs p = Some f \<and> parse_prologue f = Inr body \<and>
    next_alloc file_read oks r = Some (res, oks', r') \<and>
    (case res of
       Inr e \<Rightarrow> dbn_next file_read r = Some (e, r')
     | Inl err \<Rightarrow> False \<in> set oks \<and>
         (\<exists>before chunk behind more_es r''.
            body = before @ chunk @ behind \<and> chunk \<noteq> [] \<and> length chunk \<le> chunk_size \<and>
            drain (dbn_next file_read) r' = Some (more_es, r'') \<and>
            es @ more_es = stream_events (before @ behind) \<and>
            dbn_stats r'' = stream_stats stats_zero (before @ behind) \<and>
            dbn_failed r'' = stream_corrupt (before @ behind)))"
proof -
  obtain f body where f: "fs p = Some f" "parse_prologue f = Inr body" "stream_inv r0"
    "stream_rest file_pending r0 = body" "rd_stats r0 = stats_zero" "length (rd_scratch r0) = chunk_size"
    using dbn_open_valid [OF assms(1,2)] by metis
  obtain framed where inv: "stream_inv r" and body: "body = framed @ stream_rest file_pending r"
    and framed: "\<And>x. stream_events (framed @ x) = es @ stream_events x"
      "\<And>x. stream_stats stats_zero (framed @ x) = stream_stats (rd_stats r) x"
      "\<And>x. stream_corrupt (framed @ x) = stream_corrupt x"
    using fsrc.sr.pulls_frames [OF assms(3) f(3)] unfolding f(4,5) by blast
  obtain res oks' r' where run: "next_alloc file_read oks r = Some (res, oks', r')"
    and res: "case res of Inr e \<Rightarrow> dbn_next file_read r = Some (e, r')
      | Inl err \<Rightarrow> False \<in> set oks \<and> lost_chunk file_pending r r'"
    using fsrc.next_alloc_cases [OF inv] by blast
  show ?thesis
  proof (cases res)
    case (Inr e)
    with f(1,2) run res show ?thesis by auto
  next
    case (Inl err)
    with res have fails: "False \<in> set oks" and "lost_chunk file_pending r r'" by auto
    then obtain front chunk behind r'' where seen: "stream_rest file_pending r = front @ chunk @ behind"
      "chunk \<noteq> []" "length chunk \<le> length (rd_scratch r)"
      "drain (dbn_next file_read) r' = Some (stream_events (front @ behind), r'')"
      "rd_stats r'' = stream_stats (rd_stats r) (front @ behind)"
      "rd_failed r'' = stream_corrupt (front @ behind)"
      using fsrc.lost_chunk_seen [of r r'] assms(4) by auto
    moreover have "length (rd_scratch r) = chunk_size"
      using pulls_scratch [OF assms(3) f(3)] f(6) by simp
    ultimately have "body = (framed @ front) @ chunk @ behind \<and> chunk \<noteq> [] \<and> length chunk \<le> chunk_size \<and>
        es @ stream_events (front @ behind) = stream_events ((framed @ front) @ behind) \<and>
        dbn_stats r'' = stream_stats stats_zero ((framed @ front) @ behind) \<and>
        dbn_failed r'' = stream_corrupt ((framed @ front) @ behind)"
      using body framed by simp
    with seen(4) have "\<exists>before chunk behind more_es r''.
        body = before @ chunk @ behind \<and> chunk \<noteq> [] \<and> length chunk \<le> chunk_size \<and>
        drain (dbn_next file_read) r' = Some (more_es, r'') \<and>
        es @ more_es = stream_events (before @ behind) \<and>
        dbn_stats r'' = stream_stats stats_zero (before @ behind) \<and>
        dbn_failed r'' = stream_corrupt (before @ behind)"
      by blast
    with Inl run f(1,2) fails show ?thesis by auto
  qed
qed

theorem bad_alloc_loses_chunk_witness:
  "\<exists>r r' r''. dbn_open (\<lambda>_. Some quoting_file) ''f'' 4 = Some (Inr r) \<and> stream_events quoting_record = [] \<and>
    next_alloc file_read [False] r = Some (Inl BadAlloc, [], r') \<and>
    drain (dbn_next file_read) r' = Some ([sample_event], r'')"
proof -
  obtain r where r: "dbn_open (\<lambda>_. Some quoting_file) ''f'' 4 = Some (Inr r)" "\<not> dbn_failed r"
    "stream_inv r" "file_pending (rd_source r) = quoting_record"
    by (rule quoting_file_open)
  obtain r' where r': "next_alloc file_read [False] r = Some (Inl BadAlloc, [], r')" "stream_inv r'"
    "stream_rest file_pending r' = item_bytes (Quote 2 7 1 50 sample_event)"
    using first_refill_fails [OF r(1)] r(4) by (auto simp: quoting_record_def)
  obtain more_es r'' where "drain (dbn_next file_read) r' = Some (more_es, r'')"
    using bad_alloc_loses_chunk [OF _ r(1) pulls.none r(2), of "[False]"] r'(1) by auto
  moreover have "more_es = [sample_event]"
    using fsrc.sr.drain_ingest [OF r'(2)] calculation unfolding r'(3) quoted_events by auto
  ultimately show ?thesis
    using r(1) r'(1) quoting_events by blast
qed

end
