(* ===== verification/ViewLifetime.thy ===== *)
theory ViewLifetime
  imports Assembler
begin

text \<open>
  The storage of \<open>RecordAssembler\<close>: the \<open>std::vector\<close> in which \<open>Assembler\<close> keeps only the bytes, here
  with the heap block that holds them and its capacity, and a pulled span as the pointer that it is.
  Blocks are numbered in the order of allocation and never used twice, so a pointer keeps the
  identity of its block; reading through a pointer into a freed block, or past the elements of the
  vector, is undefined and so \<open>None\<close>. \<open>grow\<close> is the capacity that the vector takes when it
  reallocates, which the C++ standard leaves open as long as the elements fit.
\<close>

subsection \<open>The code, with its storage\<close>

record vec_assembler =
  va_heap :: "nat \<Rightarrow> bytes option"
  va_blocks :: nat
  va_data :: "nat option"
  va_capacity :: nat
  va_read_pos :: nat

record ptr_view =
  pv_block :: "nat option"
  pv_off :: nat
  pv_len :: nat

definition va_empty :: vec_assembler where
  "va_empty = \<lparr> va_heap = Map.empty, va_blocks = 0, va_data = None, va_capacity = 0, va_read_pos = 0 \<rparr>"

text \<open>The elements of the vector; without a block it has none.\<close>

definition va_buf :: "vec_assembler \<Rightarrow> bytes" where
  "va_buf h =
     (case va_data h of
        None \<Rightarrow> []
      | Some b \<Rightarrow> (case va_heap h b of None \<Rightarrow> [] | Some elems \<Rightarrow> elems))"

lemma va_buf_read_pos [simp]: "va_buf (h\<lparr>va_read_pos := n\<rparr>) = va_buf h"
  by (simp add: va_buf_def split: option.split)

text \<open>\<open>erase\<close> of the first elements moves the others to the front of the same block.\<close>

definition vec_erase_front :: "nat \<Rightarrow> vec_assembler \<Rightarrow> vec_assembler option" where
  "vec_erase_front n h = do {
     kept \<leftarrow> span_subspan n (va_buf h);
     case va_data h of
       None \<Rightarrow> Some h
     | Some b \<Rightarrow> Some (h\<lparr>va_heap := (va_heap h)(b \<mapsto> kept)\<rparr>)
   }"

text \<open>\<open>insert\<close> at the end reallocates when the new size is greater than the capacity: the elements go to
  a new block and the old one is freed.\<close>

definition vec_insert_end :: "(nat \<Rightarrow> nat \<Rightarrow> nat) \<Rightarrow> bytes \<Rightarrow> vec_assembler \<Rightarrow> vec_assembler" where
  "vec_insert_end grow chunk h =
     (let elems = va_buf h @ chunk in
        if length elems \<le> va_capacity h then
          (case va_data h of None \<Rightarrow> h | Some b \<Rightarrow> h\<lparr>va_heap := (va_heap h)(b \<mapsto> elems)\<rparr>)
        else
          let freed = (case va_data h of None \<Rightarrow> va_heap h | Some b \<Rightarrow> (va_heap h)(b := None)) in
            h\<lparr>va_heap := freed(va_blocks h \<mapsto> elems), va_blocks := va_blocks h + 1,
              va_data := Some (va_blocks h), va_capacity := grow (va_capacity h) (length elems)\<rparr>)"

definition vec_append :: "(nat \<Rightarrow> nat \<Rightarrow> nat) \<Rightarrow> bytes \<Rightarrow> vec_assembler \<Rightarrow> vec_assembler option" where
  "vec_append grow chunk h = do {
     h \<leftarrow> (if va_read_pos h \<noteq> 0 then do {
             h \<leftarrow> vec_erase_front (va_read_pos h) h;
             Some (h\<lparr>va_read_pos := 0\<rparr>)
           } else Some h);
     Some (vec_insert_end grow chunk h)
   }"

definition null_view :: ptr_view where
  "null_view = \<lparr> pv_block = None, pv_off = 0, pv_len = 0 \<rparr>"

definition vec_next :: "vec_assembler \<Rightarrow> ((pull_status \<times> ptr_view) \<times> vec_assembler) option" where
  "vec_next h = do {
     view \<leftarrow> span_subspan (va_read_pos h) (va_buf h);
     r \<leftarrow> frame_one view;
     case fr_status r of
       FrameOk \<Rightarrow> do {
         span_first (fr_record_size r) view;
         Some ((PullRecord, \<lparr> pv_block = va_data h, pv_off = va_read_pos h, pv_len = fr_record_size r \<rparr>),
               h\<lparr>va_read_pos := va_read_pos h + fr_record_size r\<rparr>)
       }
     | FrameNeedMore \<Rightarrow> Some ((PullNeedMore, null_view), h)
     | FrameCorrupt \<Rightarrow> Some ((PullCorrupt, null_view), h)
   }"

text \<open>Reading all bytes of a span, at the time of the read.\<close>

definition deref :: "vec_assembler \<Rightarrow> ptr_view \<Rightarrow> bytes option" where
  "deref h v =
     (if pv_len v = 0 then Some []
      else do {
        b \<leftarrow> pv_block v;
        elems \<leftarrow> va_heap h b;
        span_slice (pv_off v) (pv_len v) elems
      })"

text \<open>The calls of a consumer, in any order.\<close>

inductive vec_pull :: "vec_assembler \<Rightarrow> vec_assembler \<Rightarrow> bool" where
  pull: "vec_next h = Some (p, h') \<Longrightarrow> vec_pull h h'"

inductive vec_step :: "(nat \<Rightarrow> nat \<Rightarrow> nat) \<Rightarrow> vec_assembler \<Rightarrow> vec_assembler \<Rightarrow> bool"
  for grow where
  pulled: "vec_pull h h' \<Longrightarrow> vec_step grow h h'"
| appended: "vec_append grow chunk h = Some h' \<Longrightarrow> vec_step grow h h'"

inductive_cases vec_pullE: "vec_pull h h'"
inductive_cases vec_stepE: "vec_step grow h h'"

text \<open>The elements fit the capacity that the vector takes.\<close>

definition growth_law :: "(nat \<Rightarrow> nat \<Rightarrow> nat) \<Rightarrow> bool" where
  "growth_law grow \<longleftrightarrow> (\<forall>cap n. n \<le> grow cap n)"

subsection \<open>Invariant\<close>

text \<open>The vector owns the only live block.\<close>

definition va_inv :: "vec_assembler \<Rightarrow> bool" where
  "va_inv h \<longleftrightarrow> va_read_pos h \<le> length (va_buf h) \<and>
     (case va_data h of
        None \<Rightarrow> va_heap h = Map.empty \<and> va_capacity h = 0
      | Some b \<Rightarrow> b < va_blocks h \<and> (\<exists>elems. va_heap h = [b \<mapsto> elems] \<and> length elems \<le> va_capacity h))"

lemma va_inv_empty: "va_inv va_empty"
  by (simp add: va_inv_def va_empty_def)

lemma va_inv_cases:
  assumes "va_inv h"
  obtains (unallocated) k where "h = \<lparr> va_heap = Map.empty, va_blocks = k, va_data = None,
      va_capacity = 0, va_read_pos = 0 \<rparr>"
  | (allocated) b elems k cap pos where "h = \<lparr> va_heap = [b \<mapsto> elems], va_blocks = k, va_data = Some b,
      va_capacity = cap, va_read_pos = pos \<rparr>" "b < k" "length elems \<le> cap" "pos \<le> length elems"
  using assms by (cases h) (auto simp: va_inv_def va_buf_def split: option.splits)

text \<open>What \<open>append\<close> does to the storage.\<close>

lemma vec_append_effect:
  assumes inv: "va_inv h" and grow: "growth_law grow"
  shows "\<exists>h'. vec_append grow chunk h = Some h' \<and> va_inv h' \<and> va_read_pos h' = 0 \<and>
    va_buf h' = drop (va_read_pos h) (va_buf h) @ chunk \<and>
    (if length (va_buf h) - va_read_pos h + length chunk \<le> va_capacity h
     then va_data h' = va_data h \<and> va_blocks h' = va_blocks h
     else va_data h' = Some (va_blocks h) \<and> va_blocks h' = va_blocks h + 1)"
  using inv
proof (cases rule: va_inv_cases)
  case (unallocated k)
  with grow show ?thesis
    by (auto simp: vec_append_def vec_insert_end_def va_buf_def va_inv_def growth_law_def Let_def)
next
  case (allocated b elems k cap pos)
  with grow show ?thesis
    by (auto simp: vec_append_def vec_erase_front_def vec_insert_end_def va_buf_def va_inv_def
        growth_law_def span_subspan_def Let_def)
qed

lemma va_inv_read_pos: "va_inv h \<Longrightarrow> n \<le> length (va_buf h) \<Longrightarrow> va_inv (h\<lparr>va_read_pos := n\<rparr>)"
  by (cases h) (auto simp: va_inv_def va_buf_def split: option.splits)

subsection \<open>Refinement\<close>

text \<open>Without the storage it is the assembler of \<open>Assembler\<close>.\<close>

definition va_abs :: "vec_assembler \<Rightarrow> assembler" where
  "va_abs h = \<lparr> as_buf = va_buf h, as_read_pos = va_read_pos h \<rparr>"

definition span_of :: "nat option \<Rightarrow> pull_result \<Rightarrow> ptr_view" where
  "span_of data p =
     (if pl_status p = PullRecord
      then \<lparr> pv_block = data, pv_off = vw_off (pl_record p), pv_len = vw_len (pl_record p) \<rparr>
      else null_view)"

lemma vec_next_refines:
  "vec_next h = map_option
     (\<lambda>(p, a). ((pl_status p, span_of (va_data h) p), h\<lparr>va_read_pos := as_read_pos a\<rparr>)) (asm_next (va_abs h))"
  by (auto simp: vec_next_def asm_next_def va_abs_def span_of_def split: option.split frame_status.split
      bind_split)

lemma va_read_pos_same [simp]: "h\<lparr>va_read_pos := va_read_pos h\<rparr> = h"
  by (cases h) simp

lemma va_abs_pos [simp]: "as_read_pos (va_abs h) = va_read_pos h"
  by (simp add: va_abs_def)

lemma va_abs_read_pos [simp]: "va_abs (h\<lparr>va_read_pos := n\<rparr>) = (va_abs h)\<lparr>as_read_pos := n\<rparr>"
  by (simp add: va_abs_def)

lemma asm_wf_abs: "va_inv h \<Longrightarrow> asm_wf (va_abs h)"
  by (simp add: va_inv_def va_abs_def asm_wf_def)

lemma unread_abs: "unread (va_abs h) = drop (va_read_pos h) (va_buf h)"
  by (simp add: va_abs_def unread_def)

lemma vec_append_refines:
  assumes "va_inv h" and "growth_law grow"
  shows "map_option va_abs (vec_append grow chunk h) = asm_append (va_abs h) chunk"
  using vec_append_effect [OF assms, of chunk] asm_append_eq [OF asm_wf_abs [OF assms(1)], of chunk]
  by (auto simp: unread_abs) (simp add: va_abs_def)

text \<open>\<open>next\<close> touches nothing but the read position.\<close>

lemma vec_pull_cases:
  assumes inv: "va_inv h"
  obtains (pulled) n rcd where
      "vec_next h = Some ((PullRecord, \<lparr> pv_block = va_data h, pv_off = va_read_pos h, pv_len = length rcd \<rparr>),
         h\<lparr>va_read_pos := n\<rparr>)"
      "n = va_read_pos h + length rcd" "whole_record rcd"
      "n \<le> length (va_buf h)" "drop (va_read_pos h) (va_buf h) = rcd @ drop n (va_buf h)"
  | (nothing) st where "vec_next h = Some ((st, null_view), h)" "st \<noteq> PullRecord"
proof (cases "unread (va_abs h)" rule: front_cases)
  case short
  note asm_next_short [OF asm_wf_abs [OF inv] this]
  then have "vec_next h = Some ((PullNeedMore, null_view), h)"
    by (simp add: vec_next_refines span_of_def)
  then show ?thesis by (rule nothing) simp
next
  case corrupt
  note asm_next_corrupt [OF asm_wf_abs [OF inv] this]
  then have "vec_next h = Some ((PullCorrupt, null_view), h)"
    by (simp add: vec_next_refines span_of_def)
  then show ?thesis by (rule nothing) simp
next
  case (whole rcd rest)
  note wf = asm_wf_abs [OF inv]
  note A = advance_whole [OF wf whole(1)]
  have "va_read_pos h + length rcd \<le> length (va_buf h)"
    using A(1) by (simp add: asm_wf_def advance_def va_abs_def)
  moreover have "drop (va_read_pos h) (va_buf h) = rcd @ drop (va_read_pos h + length rcd) (va_buf h)"
    using A(2) whole(1) by (simp add: advance_def va_abs_def unread_def add.commute)
  ultimately show ?thesis
    using whole(2) asm_next_whole [OF wf whole]
    by (intro pulled [of rcd]) (simp_all add: vec_next_refines span_of_def advance_def va_abs_def)
qed

lemma vec_pull_effect:
  assumes "vec_pull h h'" and inv: "va_inv h"
  shows "\<exists>n. h' = h\<lparr>va_read_pos := n\<rparr> \<and> va_read_pos h \<le> n \<and> va_inv h'"
proof -
  obtain p where "vec_next h = Some (p, h')"
    using assms(1) by (auto elim: vec_pullE)
  with inv show ?thesis
  proof (cases rule: vec_pull_cases)
    case (pulled n rcd)
    with \<open>vec_next h = Some (p, h')\<close> va_inv_read_pos [OF inv, of n] show ?thesis by auto
  next
    case (nothing st)
    with \<open>vec_next h = Some (p, h')\<close> inv show ?thesis
      by (intro exI [of _ "va_read_pos h"]) simp
  qed
qed

lemma vec_pulls_effect:
  assumes "vec_pull\<^sup>*\<^sup>* h h'" and "va_inv h"
  shows "\<exists>n. h' = h\<lparr>va_read_pos := n\<rparr> \<and> va_read_pos h \<le> n \<and> va_inv h'"
  using assms
proof (induction rule: rtranclp_induct)
  case base
  then show ?case by (intro exI [of _ "va_read_pos h"]) simp
next
  case (step h1 h2)
  then show ?case using vec_pull_effect [of h1 h2] by fastforce
qed

lemma vec_steps_inv:
  assumes "(vec_step grow)\<^sup>*\<^sup>* h h'" and "growth_law grow" and "va_inv h"
  shows "va_inv h'"
  using assms
proof (induction rule: rtranclp_induct)
  case (step h1 h2)
  then have inv: "va_inv h1" by simp
  from step.hyps(2) show ?case
  proof (cases rule: vec_step.cases)
    case pulled
    with vec_pull_effect [OF _ inv] show ?thesis by blast
  next
    case (appended chunk)
    with vec_append_effect [OF inv step.prems(1), of chunk] show ?thesis by auto
  qed
qed simp

text \<open>Every state of the vector shows a state of an \<open>asm_run\<close>, so what holds of those holds here.\<close>

lemma vec_reachable_run:
  assumes "(vec_step grow)\<^sup>*\<^sup>* va_empty h" and grow: "growth_law grow"
  shows "\<exists>fed out. asm_run fed out (va_abs h)"
  using assms(1)
proof (induction rule: rtranclp_induct)
  case base
  have "va_abs va_empty = asm_empty"
    by (simp add: va_abs_def va_empty_def asm_empty_def va_buf_def)
  with asm_run.start show ?case by metis
next
  case (step h1 h2)
  then obtain fed out where run: "asm_run fed out (va_abs h1)" by blast
  have inv: "va_inv h1"
    using vec_steps_inv [OF step.hyps(1) grow va_inv_empty] .
  from step.hyps(2) show ?case
  proof (cases rule: vec_step.cases)
    case pulled
    then obtain p where p: "vec_next h1 = Some (p, h2)" by (auto elim: vec_pullE)
    then obtain q a where q: "asm_next (va_abs h1) = Some (q, a)" "va_abs h2 = a"
      using asm_next_buf by (fastforce simp: vec_next_refines va_abs_def)
    show ?thesis
    proof (cases "pl_status q = PullRecord")
      case True
      obtain r where "view_bytes a (pl_record q) = Some r"
        using asm_wf_abs [OF inv] by (cases rule: asm_next_cases) (use q(1) True in auto)
      with asm_run.next_record [OF run q(1) True] q(2) show ?thesis by blast
    next
      case False
      with asm_run.next_none [OF run q(1)] q(2) show ?thesis by blast
    qed
  next
    case (appended chunk)
    then have "asm_append (va_abs h1) chunk = Some (va_abs h2)"
      using vec_append_refines [OF inv grow, of chunk] by simp
    with asm_run.append [OF run] show ?thesis by blast
  qed
qed

subsection \<open>Freed blocks\<close>

text \<open>A block that is not live, and was allocated before, never becomes live again.\<close>

lemma freed_stays_freed:
  assumes "(vec_step grow)\<^sup>*\<^sup>* h h'" and grow: "growth_law grow" and "va_inv h"
    and "b < va_blocks h" and "va_data h \<noteq> Some b"
  shows "va_heap h' b = None"
proof -
  have "va_inv h' \<and> b < va_blocks h' \<and> va_data h' \<noteq> Some b"
    using assms(1)
  proof (induction rule: rtranclp_induct)
    case (step h1 h2)
    then have inv: "va_inv h1" and b: "b < va_blocks h1" "va_data h1 \<noteq> Some b" by simp_all
    from step.hyps(2) show ?case
    proof (cases rule: vec_step.cases)
      case pulled
      with vec_pull_effect [OF _ inv] b show ?thesis by fastforce
    next
      case (appended chunk)
      with vec_append_effect [OF inv grow, of chunk] b show ?thesis
        by (auto split: if_splits)
    qed
  qed (use assms in simp)
  then show ?thesis
    by (auto simp: va_inv_def split: option.splits)
qed

text \<open>What a span into the block of the vector shows after an \<open>append\<close>.\<close>

lemma view_after_append:
  assumes grow: "growth_law grow" and inv: "va_inv h" and v: "va_data h \<noteq> None" "pv_block v = va_data h" "0 < pv_len v"
  shows "\<exists>h'. vec_append grow chunk h = Some h' \<and>
    (let elems = drop (va_read_pos h) (va_buf h) @ chunk in
       if va_capacity h < length elems
       then \<forall>h''. (vec_step grow)\<^sup>*\<^sup>* h' h'' \<longrightarrow> deref h'' v = None
       else deref h' v = span_slice (pv_off v) (pv_len v) elems)"
proof -
  from v(1) inv obtain b where b: "va_data h = Some b" "b < va_blocks h"
    by (auto simp: va_inv_def)
  obtain h' where h': "vec_append grow chunk h = Some h'" and inv': "va_inv h'"
    and buf: "va_buf h' = drop (va_read_pos h) (va_buf h) @ chunk"
    and data: "if length (va_buf h) - va_read_pos h + length chunk \<le> va_capacity h
      then va_data h' = va_data h \<and> va_blocks h' = va_blocks h
      else va_data h' = Some (va_blocks h) \<and> va_blocks h' = va_blocks h + 1"
    using vec_append_effect [OF inv grow, of chunk] by auto
  show ?thesis
  proof (cases "va_capacity h < length (va_buf h')")
    case True
    with data buf have new: "va_data h' = Some (va_blocks h)" "va_blocks h' = va_blocks h + 1"
      by (auto split: if_splits)
    have "va_heap h'' b = None" if "(vec_step grow)\<^sup>*\<^sup>* h' h''" for h''
      using freed_stays_freed [OF that grow inv', of b] new b(2) by simp
    with True b v h' buf show ?thesis by (simp add: deref_def)
  next
    case False
    with data buf b have "va_data h' = Some b" by (auto split: if_splits)
    with inv' have "va_heap h' b = Some (va_buf h')"
      by (auto simp: va_inv_def va_buf_def split: option.splits)
    with False b v h' buf show ?thesis by (simp add: deref_def)
  qed
qed

subsection \<open>Properties\<close>

text \<open>(C39) The lifetime contract of a pulled span, in every state that any sequence of calls can reach
  and for any growth of the vector. A span that \<open>next\<close> hands out with a record shows the bytes at the
  front of the unread data, a whole record, and goes on showing them however often \<open>next\<close> is called.
  The next \<open>append\<close>, of any chunk, ends that: when the unread bytes and the chunk exceed the capacity
  the vector reallocates, and the span dangles for good, whatever is called afterwards; otherwise
  the same span shows what was moved to its place, or reaches past the elements.\<close>

theorem view_lifetime:
  assumes "growth_law grow" and "(vec_step grow)\<^sup>*\<^sup>* va_empty h"
    and "vec_next h = Some ((PullRecord, v), h1)" and "vec_pull\<^sup>*\<^sup>* h1 h2"
  shows "\<exists>r rest h3. whole_record r \<and> drop (va_read_pos h) (va_buf h) = r @ rest \<and>
    deref h1 v = Some r \<and> deref h2 v = Some r \<and> vec_append grow chunk h2 = Some h3 \<and>
    (let elems = drop (va_read_pos h2) (va_buf h2) @ chunk in
       if va_capacity h2 < length elems
       then \<forall>h4. (vec_step grow)\<^sup>*\<^sup>* h3 h4 \<longrightarrow> deref h4 v = None
       else deref h3 v = span_slice (pv_off v) (pv_len v) elems)"
proof -
  have inv: "va_inv h"
    using vec_steps_inv [OF assms(2,1) va_inv_empty] .
  obtain n rcd where v: "v = \<lparr> pv_block = va_data h, pv_off = va_read_pos h, pv_len = length rcd \<rparr>"
    and h1: "h1 = h\<lparr>va_read_pos := n\<rparr>" and n: "n = va_read_pos h + length rcd" "n \<le> length (va_buf h)"
    and rcd: "whole_record rcd" "drop (va_read_pos h) (va_buf h) = rcd @ drop n (va_buf h)"
    using inv by (cases rule: vec_pull_cases) (use assms(3) in auto)
  obtain m where h2: "h2 = h1\<lparr>va_read_pos := m\<rparr>" "n \<le> m" "va_inv h2" and inv1: "va_inv h1"
    using vec_pulls_effect [OF assms(4)] va_inv_read_pos [OF inv n(2)] h1 by auto
  have h12: "va_heap h2 = va_heap h" "va_data h2 = va_data h" "va_buf h2 = va_buf h"
    "va_data h1 = va_data h" "va_heap h1 = va_heap h" "va_buf h1 = va_buf h"
    by (simp_all add: h2(1) h1)
  have len: "0 < length rcd"
    using whole_record_bounds(1) [OF rcd(1)] by auto
  with n have "va_buf h \<noteq> []" by auto
  then obtain b where b: "va_data h = Some b" "va_heap h b = Some (va_buf h)" "b < va_blocks h2"
    using h2(3) h12 by (auto simp: va_inv_def va_buf_def split: option.splits)
  have "span_slice (va_read_pos h) (length rcd) (va_buf h) = Some rcd"
    using n rcd(2) by (simp add: span_slice_def)
  with b h12 len have shown: "deref h1 v = Some rcd" "deref h2 v = Some rcd"
    by (simp_all add: deref_def v)
  have "va_data h2 \<noteq> None" "pv_block v = va_data h2" "0 < pv_len v"
    using b(1) h12 len by (simp_all add: v)
  from view_after_append [OF assms(1) h2(3) this, of chunk] rcd shown show ?thesis
    unfolding Let_def by blast
qed

theorem view_lifetime_witness:
  "\<exists>h v h1 h3 h4. (vec_step (\<lambda>cap n. max (2 * cap) n))\<^sup>*\<^sup>* va_empty h \<and>
     vec_next h = Some ((PullRecord, v), h1) \<and> deref h1 v = Some [1, 2, 3, 4] \<and>
     vec_append (\<lambda>cap n. max (2 * cap) n) [9, 8, 7, 6] h1 = Some h3 \<and> deref h3 v = Some [9, 8, 7, 6] \<and>
     vec_append (\<lambda>cap n. max (2 * cap) n) [9, 8, 7, 6, 5] h1 = Some h4 \<and> deref h4 v = None"
proof -
  let ?grow = "\<lambda>cap n :: nat. max (2 * cap) n"
  let ?h = "\<lparr> va_heap = [0 \<mapsto> [1, 2, 3, 4]], va_blocks = 1, va_data = Some 0, va_capacity = 4, va_read_pos = 0 \<rparr>"
  let ?h1 = "?h\<lparr>va_read_pos := 4\<rparr>"
  let ?v = "\<lparr> pv_block = Some 0, pv_off = 0, pv_len = 4 \<rparr>"
  have grow: "growth_law ?grow" by (simp add: growth_law_def)
  have "vec_append ?grow [1, 2, 3, 4] va_empty = Some ?h"
    by (simp add: vec_append_def vec_insert_end_def va_empty_def va_buf_def)
  then have run: "(vec_step ?grow)\<^sup>*\<^sup>* va_empty ?h"
    by (intro r_into_rtranclp vec_step.appended)
  have nxt: "vec_next ?h = Some ((PullRecord, ?v), ?h1)"
    by (simp add: vec_next_def va_buf_def span_subspan_def span_first_def frame_one_def byte_at_def size_mul_def)
  note L = view_lifetime [OF grow run nxt rtranclp.rtrancl_refl]
  note eval = Let_def va_buf_def span_slice_def
  have "deref ?h1 ?v = Some [1, 2, 3, 4]"
    by (simp add: deref_def span_slice_def)
  moreover obtain h3 where "vec_append ?grow [9, 8, 7, 6] ?h1 = Some h3" "deref h3 ?v = Some [9, 8, 7, 6]"
    using L [of "[9, 8, 7, 6]"] by (auto simp: eval)
  moreover obtain h4 where "vec_append ?grow [9, 8, 7, 6, 5] ?h1 = Some h4" "deref h4 ?v = None"
    using L [of "[9, 8, 7, 6, 5]"] by (auto simp: eval)
  ultimately show ?thesis using run nxt by blast
qed

end
