(* ===== verification/Spec2Isabelle.thy ===== *)
theory Spec2Isabelle
  imports Layout StreamIngest MmapIngest FileOwnership Fuzz Replay Bench Version
    ReaderTests MappingTests GrowingFile Allocation ViewLifetime
begin

text \<open>
  \<^bold>\<open>trading_sim: the DBN ingest stack.\<close>

  The program reads market data in Databento's binary encoding (a \<open>.dbn\<close> file: an 8-byte header,
  metadata, then records that state their own length) and turns its market-by-order records into the
  engine's events. Everything is C++ under \<open>core/\<close>, with a replay driver (\<open>examples/\<close>), a benchmark
  (\<open>bench/\<close>) and two fuzzers (\<open>fuzz/\<close>, \<open>tests/cpp/test_frame_fuzz.cpp\<close>).

  \<^bold>\<open>How the parts fit.\<close> \<open>frame_one\<close> decides what the front of a buffer holds. Two readers are built
  on it: \<open>DbnReader\<close> pulls chunks from a byte source and stitches records across chunk boundaries in
  a \<open>RecordAssembler\<close>; \<open>MmapDbnReader\<close> frames in place over a \<open>MemoryMappedFile\<close>. Both hand each
  framed record to \<open>route_record\<close>, count it with \<open>tally\<close>, and offer the same contract: \<open>next()\<close>,
  \<open>failed()\<close>, \<open>stats()\<close>, \<open>version()\<close>. The drivers loop over \<open>next()\<close>.

  \<^bold>\<open>Reading the model.\<close> A computation is an \<open>option\<close>: \<open>None\<close> is undefined behaviour (a read outside
  a span) or an endless loop, so that a theorem of the form \<open>f x = Some y\<close> states memory safety and
  termination. Loops that the input drives are \<open>partial_function (option)\<close>; no fuel is used
  anywhere. Exceptions are the left values of a sum, messages included. Structs are records with the
  fields in the order of the source, with a prefix per struct (\<open>ev_\<close>, \<open>w_\<close>, \<open>fr_\<close>, \<open>as_\<close>, \<open>st_\<close>,
  \<open>rd_\<close>, \<open>mm_\<close>, \<open>mf_\<close>). Fields of the wire keep their width; a size that exists in memory is a
  \<open>nat\<close>, and where the input enters size arithmetic (the length byte, the metadata length) it is
  written modulo \<open>2 ^ 64\<close>.

  \<^bold>\<open>Theories, from the bottom.\<close>
  \<^item> \<open>Prelude\<close>: byte buffers and bounds-checked spans, size arithmetic, little-endian integers with
    their round trips.
  \<^item> \<open>Event\<close> (\<open>event.hpp\<close>): the enums, their validators, the event.
  \<^item> \<open>Dbn\<close> (\<open>dbn.hpp\<close>): the 56-byte wire record, \<open>memcpy\<close> to and from it at the pinned offsets,
    \<open>to_event\<close>. Lemmas: the two round trips between bytes and struct, the outcomes of \<open>to_event\<close>.
  \<^item> \<open>Text\<close>: the text functions of the C library the program calls (\<open>to_string\<close>, the integer
    conversions of \<open>printf\<close>, \<open>atoi\<close>, \<open>atoll\<close>). Lemmas: what is printed is read back, alone and
    inside a line.
  \<^item> \<open>Layout\<close> (the \<open>static_assert\<close>s of \<open>dbn.hpp\<close> and \<open>event.hpp\<close>): the placement of struct members,
    applied to the two member lists, and a lower bound on the size of a struct over all orders of
    its members; the image of an event in memory and its round trip.
  \<^item> \<open>Framer\<close> (\<open>frame_one\<close> of \<open>dbn_reader.hpp\<close>): the decision; what framing a stream means
    (\<open>split_records\<close>: whole records and a tail), with soundness, uniqueness and the induction rule
    \<open>stream_induct\<close> most other proofs use.
  \<^item> \<open>Assembler\<close> (\<open>RecordAssembler\<close>): state, operations, views, and \<open>asm_run\<close>, any interleaving of
    its calls, with the invariant that no byte is lost. \<open>ViewLifetime\<close>: the same class with the heap
    block and the capacity of its \<open>std::vector\<close>, a refinement of \<open>Assembler\<close> in which a pulled span
    is a pointer that a reallocation leaves dangling.
  \<^item> \<open>Routing\<close> (\<open>route_record\<close>, \<open>tally\<close>, \<open>IngestStats\<close>): the routing decision and the abstract
    \<open>pull\<close>, one call of \<open>next()\<close> on a stream of bytes.
  \<^item> \<open>Errors\<close>, \<open>Prologue\<close>: the exceptions with their messages, and the specification of the header.
  \<^item> \<open>Contract\<close>: the locale \<open>pull_reader\<close>, what every reader promises (one call of \<open>next()\<close> does what
    \<open>pull\<close> does); proved once in it: the consumer's loop, any number of calls, the final end, and
    that a run can be cut in two at any call.
  \<^item> \<open>ByteSource\<close> (\<open>FileByteSource\<close>): the locale \<open>byte_source\<close>, its interpretation \<open>fsrc\<close> for files,
    on a stream that can end or fail; the fill loop. \<open>StreamReader\<close> (\<open>DbnReader\<close>): prologue,
    \<open>next()\<close>, constructor; a sublocale gives \<open>pull_reader\<close> for every byte source.
  \<^item> \<open>MappedFile\<close> (\<open>memory_mapped_file.hpp/.cpp\<close>): the special members over a platform, the pair of
    constructor and \<open>release_\<close> that the \<open>#ifdef\<close> selects; \<open>life\<close>, any use of any number of objects;
    the locale \<open>mapping_platform\<close>, what both branches promise. \<open>PosixFile\<close> and \<open>WinFile\<close> are the two
    branches, each over system calls that are a parameter with laws (\<open>posix_laws\<close>, \<open>win32_laws\<close>) and
    each a sublocale of \<open>mapping_platform\<close>. A branch also says when the system refuses a file:
    \<open>posix_refuses\<close> and \<open>win_refuses\<close> hold of an exception when, in the state given, the calls
    before one succeed, that one fails, and the exception is its own. They read the answers of the
    calls and not the constructor; the platform carries them as \<open>pf_refuses\<close>. \<open>Platforms\<close> names the
    supported ones, and \<open>ExampleSystems\<close> has a system for each that satisfies its laws. \<open>MmapReader\<close>
    (\<open>MmapDbnReader\<close>) interprets \<open>pull_reader\<close> as \<open>mm\<close>.
  \<^item> \<open>Feed\<close>: the writer's side, DBN files with given contents, and the counters in closed form.
  \<^item> \<open>Ingest\<close>: \<open>ingest\<close>, the function of the file's bytes that both readers compute, and what it
    means.
  \<^item> \<open>StreamIngest\<close>, \<open>MmapIngest\<close>, \<open>FileOwnership\<close>: what users of the two readers and of the mapped
    file can rely on.
  \<^item> \<open>GrowingFile\<close>: the streaming reader on a file that another process appends to, as a second
    interpretation of \<open>byte_source\<close> and \<open>pull_reader\<close>. \<open>Allocation\<close>: its \<open>next()\<close> when an allocation
    fails.
  \<^item> \<open>Fuzz\<close>, \<open>Replay\<close>, \<open>Version\<close>: the fuzzers, the replay driver, the version string and the Python
    module. \<open>Doubles\<close>, \<open>BenchModes\<close>, \<open>Bench\<close> (\<open>bench_dbn.cpp\<close>): what is used of \<open>double\<close> and
    \<open>std::sort\<close>, the three modes, and the process with its report.
  \<^item> \<open>UnitTests\<close>, \<open>ReaderTests\<close>, \<open>MappingTests\<close> (\<open>tests/cpp/\<close>): the test programs as functions to
    their exit code, and that it is 0 on the model. The test of \<open>tests/python/\<close> is in \<open>Version\<close>.

  \<^bold>\<open>What is shown.\<close> Both readers are total and memory safe on every file and equal to one function
  of its bytes, for every chunk size but 0 (one that no vector can have is refused); what they emit
  is exactly the valid market-by-order records, in order, bit for bit; every record is counted;
  truncated files give prefixes, and a file that grows while it is read gives a snapshot of it;
  files written from events are read back; the mapped file leaks nothing, on either platform; a
  consumer that goes on reaches the end; the two readers agree after every single call; the report
  of the replay driver and that of the benchmark are written out byte for byte (\<open>replay_text\<close>,
  \<open>report_text\<close>, independent of the functions that print a line in the model); the former determines
  the numbers it prints, the latter consists of order statistics of its passes and is defined for
  every file and clock; a constructor over a mapping throws exactly when the prologue is bad or a
  system call failed; and a pulled span stays valid until the next \<open>append\<close> and no longer. Where the
  code does otherwise than it says, a theorem states what it does: a chunk size of 0
  (\<open>zero_chunk_size\<close>, \<open>bench_in_memory_partial\<close>, \<open>bench_garbage_chunk_hangs\<close>), a device that fails
  (\<open>device_failure_looks_like_end\<close>), an allocation that fails (\<open>bad_alloc_loses_chunk\<close>), the order
  of the checks of the framer (\<open>frame_one_check_order\<close>), the envelope fields no code validates
  (\<open>to_event_ignores_envelope\<close>), the missing bounds check of the benchmark's \<open>record_start\<close>
  (\<open>bench_in_memory_partial\<close>).

  \<^bold>\<open>Assumptions and bounds.\<close> A 64-bit, little-endian host, which the source asserts. A \<open>std::vector\<close>
  refuses a size above \<open>vector_max_size\<close> and memory allocation succeeds otherwise, except in
  \<open>Allocation\<close>, where any refill of \<open>next()\<close> may fail. Files do not change while they are read,
  except in \<open>GrowingFile\<close>, where bytes may be appended in front of any read of \<open>next()\<close>. An
  allocation gets a block of its own that is not used again, and the growth of a vector is a
  parameter with \<open>growth_law\<close>. The device of an \<open>ifstream\<close> may fail during a use of the streaming
  reader (\<open>device_fails\<close>); elsewhere a read fails only at the end of the file. The counters are
  64-bit words; they are exact below \<open>2 ^ 66\<close> bytes of input (\<open>counters_account_for_every_record\<close>),
  and the counts kept in \<open>nat\<close> by the drivers fit for the same reason. The benchmark's clock, the
  arithmetic and printing of \<open>double\<close> and the routine behind \<open>std::sort\<close> are parameters;
  \<open>double_laws\<close> states what IEEE 754 and the C++ standard give them, and \<open>ex_double_laws\<close> that this
  can hold. A conversion by \<open>atoi\<close> or \<open>atoll\<close> whose value does not fit is undefined behaviour.

  \<^bold>\<open>Not modelled.\<close> Files that are truncated or overwritten while they are read or mapped: what a
  read then delivers, and whether a mapping then raises a signal, is up to the system. In the
  benchmark's \<open>slurp\<close>, a \<open>tellg\<close> or a \<open>read\<close> that fails on a file that was opened. Memory that runs
  out in a constructor or in a driver, where the exception leaves nothing to go on with. The
  generator of the portable fuzzer (its theorem holds for all bytes); the inside of pybind11; the
  Python research package, which is empty, and the build files.
\<close>

text \<open>(C1) The two readers agree. On a file system that both see alike, for every chunk size but 0
  that a vector can have, the streaming and the memory-mapped reader end. When no system call that
  opens, measures or maps the file fails they give the same result: the same error for a bad
  prologue, or else the same events in the same order, counters, failure flag and version. Only when
  such a call fails does the mapped reader throw the exception for that call instead.\<close>

theorem readers_agree:
  assumes "supported_platform pf handles files" and "files os = fs"
    and "0 < chunk_size" and "chunk_size \<le> vector_max_size"
  shows "\<exists>res_stream res_mmap os'. stream_ingest fs p chunk_size = Some res_stream \<and>
    mmap_ingest pf os p = Some (res_mmap, os') \<and>
    ((\<exists>err. pf_refuses pf os p err \<and> res_mmap = Inl err) \<or>
     (\<nexists>err. pf_refuses pf os p err) \<and> res_mmap = res_stream)"
proof -
  obtain res_mmap os' where m: "mmap_ingest pf os p = Some (res_mmap, os')"
    "(\<exists>err. pf_refuses pf os p err \<and> res_mmap = Inl err) \<or>
     (\<nexists>err. pf_refuses pf os p err) \<and> (\<exists>f. fs p = Some f \<and> res_mmap = ingest f)"
    using ingest_on [OF assms(1), of os p] assms(2) by blast
  with stream_ingest_ingest [OF assms(3,4), of fs p] show ?thesis by auto
qed

theorem readers_agree_witness:
  "\<exists>res os'. stream_ingest (\<lambda>_. Some sample_file) ''f'' 7 = Some (Inr res) \<and>
    mmap_ingest (win_platform ex_win32) (ex_start (\<lambda>_. Some sample_file)) ''f'' = Some (Inr res, os') \<and>
    ig_events res = [sample_event]"
proof -
  have "stream_ingest (\<lambda>_. Some sample_file) ''f'' 7 = Some (ingest sample_file)"
    by (simp add: stream_ingest_ingest)
  with readers_agree [OF ex_supported(2) ex_files_start, of 7 "\<lambda>_. Some sample_file" "''f''"] show ?thesis
    by (auto simp: ex_accepts ingest_def parse_sample sample_events)
qed

subsection \<open>What either reader returns\<close>

text \<open>\<open>res\<close> is what some reader returns for the file \<open>p\<close>: the streaming one with some chunk size but
  0, or the mapped one.\<close>

definition ingested ::
    "file_system \<Rightarrow> 'os platform \<Rightarrow> 'os \<Rightarrow> path \<Rightarrow> ingest_result \<Rightarrow> bool" where
  "ingested fs pf os p res \<longleftrightarrow>
     (\<exists>chunk_size > 0. stream_ingest fs p chunk_size = Some (Inr res)) \<or>
     (\<exists>os'. mmap_ingest pf os p = Some (Inr res, os'))"

lemma ingested_ingest:
  assumes "supported_platform pf handles files" and "files os = fs" and "ingested fs pf os p res"
  obtains f where "fs p = Some f" "ingest f = Inr res"
proof -
  consider (stream) chunk_size where "0 < chunk_size" "stream_ingest fs p chunk_size = Some (Inr res)"
    | (mapped) os' where "mmap_ingest pf os p = Some (Inr res, os')"
    using assms(3) by (auto simp: ingested_def)
  then show ?thesis
  proof cases
    case stream
    with stream_ingest_ingest [of chunk_size fs p] stream_ingest_InrD [OF stream(2)] that
    show ?thesis by (auto split: option.splits)
  next
    case mapped
    with ingest_on [OF assms(1), of os p] assms(2) that show ?thesis by auto
  qed
qed

lemma ingested_sample:
  "ingested (\<lambda>_. Some sample_file) (win_platform ex_win32) (ex_start (\<lambda>_. Some sample_file)) p
     \<lparr> ig_events = [sample_event], ig_stats = stream_stats stats_zero (feed_bytes sample_items),
       ig_failed = stream_corrupt (feed_bytes sample_items), ig_version = kSupportedDbnVersion \<rparr>"
proof -
  have "stream_ingest (\<lambda>_. Some sample_file) p 5 = Some (ingest sample_file)"
    by (simp add: stream_ingest_ingest)
  then show ?thesis
    unfolding ingested_def ingest_def parse_sample
    by (intro disjI1 exI [of _ 5]) (simp add: sample_events)
qed

text \<open>(C4) The trust boundary: an event that any reader returns is the conversion of a 56-byte record
  of the file with rtype 0xA0 and with valid action and side bytes, bit for bit. Nothing else in the
  file, whatever its bytes, can become an event.\<close>

theorem emitted_events_are_mbo_records:
  assumes "supported_platform pf handles files" and "files os = fs" and "ingested fs pf os p res"
    and "e \<in> set (ig_events res)"
  shows "\<exists>f body w. fs p = Some f \<and> parse_prologue f = Inr body \<and>
    store_wire w \<in> set (fst (split_records body)) \<and> w_rtype w = 0xA0 \<and>
    w_action w = action_byte (ev_action e) \<and> w_side w = side_byte (ev_side e) \<and>
    to_event w = Some (Inr e)"
proof -
  obtain f where f: "fs p = Some f" "ingest f = Inr res"
    using assms(1-3) by (rule ingested_ingest)
  from ingest_event_origin [OF f(2) assms(4)] f(1) show ?thesis
    unfolding kMboRtype_def by blast
qed

theorem emitted_events_are_mbo_records_witness:
  "\<exists>w. store_wire w \<in> set (fst (split_records (feed_bytes sample_items))) \<and>
    to_event w = Some (Inr sample_event)"
  using emitted_events_are_mbo_records [OF ex_supported(2) ex_files_start ingested_sample, of sample_event]
    parse_sample by auto

text \<open>(C11) No record is dropped without a trace: the counters any reader reports for a file below
  \<open>2 ^ 66\<close> bytes are the true numbers of records, events and skips (none can wrap), the events counted
  are the events returned, and the records are the sum of the other three.\<close>

theorem counters_account_for_every_record:
  assumes "supported_platform pf handles files" and "files os = fs" and "ingested fs pf os p res"
    and "fs p = Some f" and "parse_prologue f = Inr body" and "length f < 2 ^ 66"
  shows "unat (st_records (ig_stats res)) = length (fst (split_records body)) \<and>
    unat (st_events (ig_stats res)) = length (ig_events res) \<and>
    unat (st_skipped_non_mbo (ig_stats res)) = count_routed (\<lambda>r. r = SkipNonMbo) body \<and>
    unat (st_skipped_malformed (ig_stats res)) = count_routed (\<lambda>r. r = SkipMalformed) body \<and>
    unat (st_records (ig_stats res)) = unat (st_events (ig_stats res)) +
      unat (st_skipped_non_mbo (ig_stats res)) + unat (st_skipped_malformed (ig_stats res))"
proof -
  have "ingest f = Inr res"
    using assms(1-3) by (rule ingested_ingest) (simp add: assms(4))
  from ingest_counters [OF assms(5) this assms(6)] show ?thesis by blast
qed

theorem counters_account_for_every_record_witness:
  "unat (st_events (stream_stats stats_zero (feed_bytes sample_items))) = 1"
proof -
  have "length sample_file < 2 ^ 66"
    by (simp add: sample_file_def prologue_bytes_def feed_bytes_def sample_items_def)
  from counters_account_for_every_record [OF ex_supported(2) ex_files_start ingested_sample _ parse_sample this]
  show ?thesis by simp
qed

text \<open>(C10) Writing a file and reading it back: a prologue with any metadata, any interleaving of
  events (with any envelope fields) and records of other types, and any tail that starts no whole
  record, are read by the streaming reader with every chunk size a vector can have but 0 as exactly
  the events written, in order; \<open>failed()\<close> is set exactly when the tail is corrupt, and the mapped
  reader gives the same when no system call fails, or else the exception for the call that does.\<close>

theorem feed_roundtrip:
  assumes "supported_platform pf handles files" and "0 < chunk_size" and "chunk_size \<le> vector_max_size"
    and "length meta < 2 ^ 32" and "list_all item_ok items" and "short_tail tail \<or> corrupt_tail tail"
    and "files os p = Some (prologue_bytes meta @ feed_bytes items @ tail)"
  shows "\<exists>res mres os'. stream_ingest (files os) p chunk_size = Some (Inr res) \<and>
    ig_events res = List.map_filter item_event items \<and>
    ig_failed res = corrupt_tail tail \<and> ig_version res = 1 \<and>
    mmap_ingest pf os p = Some (mres, os') \<and>
    ((\<exists>err. pf_refuses pf os p err \<and> mres = Inl err) \<or>
     (\<nexists>err. pf_refuses pf os p err) \<and> mres = Inr res)"
proof -
  obtain res where res: "ingest (prologue_bytes meta @ feed_bytes items @ tail) = Inr res"
    "ig_events res = List.map_filter item_event items" "ig_failed res = corrupt_tail tail"
    "ig_version res = 1"
    using ingest_feed [OF assms(4,5,6)] by blast
  with stream_ingest_ingest [OF assms(2,3), of "files os" p] assms(7)
    ingest_on [OF assms(1), of os p] show ?thesis by auto
qed

theorem feed_roundtrip_witness:
  "\<exists>res os'. stream_ingest (\<lambda>_. Some (prologue_bytes [1, 2, 3] @ feed_bytes sample_items @ [0, 0])) ''f'' 9 =
      Some (Inr res) \<and> ig_events res = [sample_event] \<and> ig_failed res \<and>
    mmap_ingest (win_platform ex_win32)
      (ex_start (\<lambda>_. Some (prologue_bytes [1, 2, 3] @ feed_bytes sample_items @ [0, 0]))) ''f'' = Some (Inr res, os')"
proof -
  have "List.map_filter item_event sample_items = [sample_event]" and "corrupt_tail [0, 0]"
    by (simp_all add: sample_items_def corrupt_tail_def)
  with feed_roundtrip [OF ex_supported(2), of 9 "[1, 2, 3]" sample_items "[0, 0]"
      "ex_start (\<lambda>_. Some (prologue_bytes [1, 2, 3] @ feed_bytes sample_items @ [0, 0]))" "''f''"]
    sample_items_ok show ?thesis by (auto simp: ex_files_start ex_accepts)
qed

text \<open>(C26) A file that is cut or still being written gives a prefix: when the streaming reader accepts
  the bytes \<open>f\<close>, it accepts \<open>f\<close> continued by any bytes, and returns the same events first, in order;
  once a file is corrupt, no continuation adds an event.\<close>

theorem truncated_file_gives_prefix:
  assumes "0 < chunk_size" and "fs p = Some f" and "stream_ingest fs p chunk_size = Some (Inr res)"
    and "fs' p = Some (f @ g)"
  shows "\<exists>res'. stream_ingest fs' p chunk_size = Some (Inr res') \<and>
    prefix (ig_events res) (ig_events res') \<and>
    (ig_failed res \<longrightarrow> ig_failed res' \<and> ig_events res' = ig_events res)"
proof -
  note ingests = stream_ingest_ingest [OF assms(1) stream_ingest_InrD [OF assms(3)]]
  have "ingest f = Inr res"
    using ingests [of fs p] assms(2,3) by simp
  from ingest_append [OF this, of g] ingests [of fs' p] assms(4)
  show ?thesis by auto
qed

theorem truncated_file_gives_prefix_witness:
  "\<exists>res'. stream_ingest (\<lambda>_. Some (sample_file @ [14, 160, 7])) ''f'' 5 = Some (Inr res') \<and>
    prefix [sample_event] (ig_events res')"
proof -
  have "stream_ingest (\<lambda>_. Some sample_file) ''f'' 5 = Some (ingest sample_file)"
    by (simp add: stream_ingest_ingest)
  then obtain res where res: "stream_ingest (\<lambda>_. Some sample_file) ''f'' 5 = Some (Inr res)"
    "ig_events res = [sample_event]"
    by (auto simp: ingest_def parse_sample sample_events)
  with truncated_file_gives_prefix [OF _ _ res(1), of sample_file
      "\<lambda>_. Some (sample_file @ [14, 160, 7])" "[14, 160, 7]"] show ?thesis by auto
qed

text \<open>(C13) Progress. On a file with a valid prologue a consumer that goes on calling \<open>next()\<close> gets every
  event and is told the end: any number of calls above the number of 56-byte blocks of the body all
  return, hand out exactly the events of the stream, leave the counters and the failure flag of the
  whole stream, and the next call returns nothing. This holds for the streaming reader with every
  chunk size a vector can have but 0, and for the mapped reader, whose constructor returns unless a
  system call fails.\<close>

theorem readers_reach_the_end:
  assumes "supported_platform pf handles files" and "files os = fs"
    and "0 < chunk_size" and "chunk_size \<le> vector_max_size"
    and "fs p = Some f" and "parse_prologue f = Inr body" and "length body div 56 < k"
  shows "(\<exists>r0 r r'. dbn_open fs p chunk_size = Some (Inr r0) \<and>
      call_times (dbn_next file_read) k r0 = Some (stream_events body, r) \<and>
      rd_stats r = stream_stats stats_zero body \<and> rd_failed r = stream_corrupt body \<and>
      dbn_next file_read r = Some (None, r')) \<and>
    ((\<exists>err os'. pf_refuses pf os p err \<and> mmap_open pf os p = Some (Inl err, os')) \<or>
     (\<exists>m0 os' m m'. mmap_open pf os p = Some (Inr m0, os') \<and>
        call_times (mmap_next (pf_mem pf os')) k m0 = Some (stream_events body, m) \<and>
        mm_stats m = stream_stats stats_zero body \<and> mm_failed m = stream_corrupt body \<and>
        mmap_next (pf_mem pf os') m = Some (None, m')))"
proof (intro conjI)
  have k: "length (stream_events body) < k"
    using stream_events_length [of body] assms(7) by linarith
  obtain r0 where r0: "dbn_open fs p chunk_size = Some (Inr r0)" "stream_inv r0"
    "stream_rest file_pending r0 = body" "rd_stats r0 = stats_zero" "\<not> rd_failed r0"
    using dbn_open_parses [OF assms(3,4), of fs p] assms(5,6) by auto
  with fsrc.sr.call_times_end [OF r0(2), of k] k
  show "\<exists>r0 r r'. dbn_open fs p chunk_size = Some (Inr r0) \<and>
      call_times (dbn_next file_read) k r0 = Some (stream_events body, r) \<and>
      rd_stats r = stream_stats stats_zero body \<and> rd_failed r = stream_corrupt body \<and>
      dbn_next file_read r = Some (None, r')" by auto
  obtain res os' where mo: "mmap_open pf os p = Some (res, os')"
    using open_on [OF assms(1), of os p] by blast
  show "(\<exists>err os'. pf_refuses pf os p err \<and> mmap_open pf os p = Some (Inl err, os')) \<or>
     (\<exists>m0 os' m m'. mmap_open pf os p = Some (Inr m0, os') \<and>
        call_times (mmap_next (pf_mem pf os')) k m0 = Some (stream_events body, m) \<and>
        mm_stats m = stream_stats stats_zero body \<and> mm_failed m = stream_corrupt body \<and>
        mmap_next (pf_mem pf os') m = Some (None, m'))"
  proof (cases res)
    case (Inl err)
    with mo open_on [OF assms(1), of os p] assms(2,5,6) show ?thesis by auto
  next
    case (Inr m0)
    with mo open_on [OF assms(1), of os p] assms(2,5,6) have m0: "mmap_inv (pf_mem pf os') m0"
      "mmap_rest (pf_mem pf os') m0 = body" "mm_stats m0 = stats_zero" "\<not> mm_failed m0"
      by auto
    with mm.call_times_end [OF m0(1), of k] k mo Inr show ?thesis by auto
  qed
qed

theorem readers_reach_the_end_witness:
  "\<exists>r0 r m0 os' m. dbn_open (\<lambda>_. Some sample_file) ''f'' 7 = Some (Inr r0) \<and>
    call_times (dbn_next file_read) 2 r0 = Some ([sample_event], r) \<and>
    mmap_open (win_platform ex_win32) (ex_start (\<lambda>_. Some sample_file)) ''f'' = Some (Inr m0, os') \<and>
    call_times (mmap_next (ex_mem os')) 2 m0 = Some ([sample_event], m)"
proof -
  have "length (feed_bytes sample_items) div 56 < 2"
    by (simp add: feed_bytes_def sample_items_def)
  from readers_reach_the_end [OF ex_supported(2) ex_files_start _ _ refl parse_sample this, of 7 "''f''"]
  show ?thesis by (auto simp: sample_events ex_accepts ex_mem_calls)
qed

text \<open>(C14) The two readers run in lockstep: whatever the chunk size but 0, after any number \<open>n\<close> of
  calls of \<open>next()\<close> on either reader of the same file, both calls returned the same events so far,
  in the same order and with the same empty answers at the end, and the two report the same
  counters, failure flag and version, not only when the file is read to its end.\<close>

theorem readers_in_lockstep:
  assumes "supported_platform pf handles files" and "files os = fs" and "0 < chunk_size"
    and "dbn_open fs p chunk_size = Some (Inr r0)" and "mmap_open pf os p = Some (Inr m0, os')"
  shows "\<exists>es r m. call_times (dbn_next file_read) n r0 = Some (es, r) \<and>
    call_times (mmap_next (pf_mem pf os')) n m0 = Some (es, m) \<and>
    dbn_stats r = mmap_stats m \<and> dbn_failed r = mmap_failed m \<and> dbn_version r = mmap_version m"
proof -
  obtain f body where f: "fs p = Some f" "parse_prologue f = Inr body" "stream_inv r0"
    "stream_rest file_pending r0 = body" "rd_stats r0 = stats_zero" "\<not> rd_failed r0"
    "rd_version r0 = kSupportedDbnVersion"
    using dbn_open_valid [OF assms(3,4)] by metis
  then have m0: "mmap_inv (pf_mem pf os') m0" "mmap_rest (pf_mem pf os') m0 = body"
    "mm_stats m0 = stats_zero" "\<not> mm_failed m0" "mm_version m0 = kSupportedDbnVersion"
    using open_on [OF assms(1), of os p] assms(2,5) by auto
  obtain es bs st c where times: "pull_times n body stats_zero False = (es, bs, st, c)"
    by (cases "pull_times n body stats_zero False") auto
  from fsrc.sr.call_times_pull [OF f(3), of n es bs st c] mm.call_times_pull [OF m0(1), of n es bs st c]
    f m0 times show ?thesis by auto
qed

theorem readers_in_lockstep_witness:
  "\<exists>r0 m0 os' es r m. dbn_open (\<lambda>_. Some sample_file) ''f'' 5 = Some (Inr r0) \<and>
    mmap_open (posix_platform ex_posix) (ex_start (\<lambda>_. Some sample_file)) ''f'' = Some (Inr m0, os') \<and>
    call_times (dbn_next file_read) 3 r0 = Some (es, r) \<and>
    call_times (mmap_next (ex_mem os')) 3 m0 = Some (es, m)"
proof -
  obtain r0 where r0: "dbn_open (\<lambda>_. Some sample_file) ''f'' 5 = Some (Inr r0)"
    by (rule open_sample)
  obtain m0 os' where m0: "mmap_open (posix_platform ex_posix) (ex_start (\<lambda>_. Some sample_file)) ''f'' =
      Some (Inr m0, os')"
    by (rule mmap_open_sample)
  from readers_in_lockstep [OF ex_supported(1) ex_files_start _ r0 m0, of 3] r0 m0 show ?thesis
    unfolding ex_posix_mem by fastforce
qed

end
